theory Spec2Isabelle
  imports Main
begin

section \<open>Data model of the notification settings view\<close>

text \<open>
  The embedded program is \<^verbatim>\<open>src/components/views/settings/Notifications.tsx\<close>.
  Push rules, their kinds and actions are types of the client SDK; only the fields the
  component reads are kept.
\<close>

datatype VectorState = Off | On | Loud

datatype Phase = Loading | Ready | Persisting | Error

datatype RuleClass = Master | VectorGlobal | VectorMentions | VectorOther | Other

datatype PushRuleKind = Override | ContentSpecific | RoomSpecific | SenderSpecific | Underride

datatype PushRuleAction =
  Notify | DontNotify | Coalesce | SetTweakSound string | SetTweakHighlight bool

datatype ThreepidMedium = Email | Phone

record IPusher =
  kind :: "string option"
  pushkey :: string
  app_display_name :: string
  device_display_name :: string

record IThreepid =
  medium :: ThreepidMedium
  address :: string

record IPushRule =
  rule_id :: string
  enabled :: bool
  actions :: "PushRuleAction list"
  pattern :: "string option"

record IAnnotatedPushRule = IPushRule +
  kind :: PushRuleKind

text \<open>
  \<^verbatim>\<open>VectorPushRuleDefinition\<close> is declared in the \<^verbatim>\<open>notifications\<close> module, which the
  component only imports. The three members the component uses are fields here, so every
  statement below holds for any definition table.
\<close>

record VectorPushRuleDefinition =
  description :: string
  ruleToVectorState :: "IAnnotatedPushRule \<Rightarrow> VectorState"
  vectorStateToActions :: "VectorState \<Rightarrow> PushRuleAction list option"
  syncedRuleIds :: "string list option"

record IVectorPushRule =
  ruleId :: string
  rule :: "IAnnotatedPushRule option"
  description :: string
  vectorState :: VectorState
  syncedVectorState :: "VectorState option"

record IContentRules =
  vectorState :: VectorState
  rules :: "IAnnotatedPushRule list"
  externalRules :: "IAnnotatedPushRule list"

record IState =
  phase :: Phase
  masterPushRule :: "IAnnotatedPushRule option"
  vectorKeywordRuleInfo :: "IContentRules option"
  vectorPushRules :: "(RuleClass \<Rightarrow> IVectorPushRule list option) option"
  pushers :: "IPusher list option"
  threepids :: "IThreepid list option"
  deviceNotificationsEnabled :: bool
  desktopNotifications :: bool
  desktopShowBody :: bool
  audioNotifications :: bool
  clearingNotifications :: bool

text \<open>
  \<^verbatim>\<open>defaultRules\<close> is an object with one array per rule class; \<^verbatim>\<open>for ... in\<close> visits its
  keys in the order the object literal of \<^verbatim>\<open>refreshRules\<close> lists them.
\<close>

type_synonym DefaultRules = "RuleClass \<Rightarrow> IAnnotatedPushRule list"

definition ruleClasses :: "RuleClass list" where
  "ruleClasses = [Master, VectorGlobal, VectorMentions, VectorOther, Other]"

section \<open>Loudest state of a rule and its synced rules\<close>

fun findInCategories :: "string \<Rightarrow> DefaultRules \<Rightarrow> RuleClass list \<Rightarrow> IAnnotatedPushRule option" where
  "findInCategories rid defaultRules [] = None"
| "findInCategories rid defaultRules (category # rest) =
     (case find (\<lambda>r. rule_id r = rid) (defaultRules category) of
        Some r \<Rightarrow> Some r
      | None \<Rightarrow> findInCategories rid defaultRules rest)"

definition findInDefaultRules :: "string \<Rightarrow> DefaultRules \<Rightarrow> IAnnotatedPushRule option" where
  "findInDefaultRules rid defaultRules = findInCategories rid defaultRules ruleClasses"

definition OrderedVectorStates :: "VectorState list" where
  "OrderedVectorStates = [Off, On, Loud]"

text \<open>\<^verbatim>\<open>Array.prototype.indexOf\<close>: the first position of the element, or -1.\<close>

fun indexOfFrom :: "'a list \<Rightarrow> 'a \<Rightarrow> int \<Rightarrow> int" where
  "indexOfFrom [] x i = - 1"
| "indexOfFrom (y # ys) x i = (if y = x then i else indexOfFrom ys x (i + 1))"

definition indexOf :: "'a list \<Rightarrow> 'a \<Rightarrow> int" where
  "indexOf xs x = indexOfFrom xs x 0"

text \<open>The callback of the \<^verbatim>\<open>reduce\<close> in \<^verbatim>\<open>maximumVectorState\<close>.\<close>

definition maximumStep ::
  "DefaultRules \<Rightarrow> VectorPushRuleDefinition \<Rightarrow> VectorState \<Rightarrow> string \<Rightarrow> VectorState" where
  "maximumStep defaultRules definition maxVectorState rid =
     (if maxVectorState = Loud then maxVectorState
      else case findInDefaultRules rid defaultRules of
             Some syncedRule \<Rightarrow>
               (let syncedRuleVectorState = ruleToVectorState definition syncedRule
                in if indexOf OrderedVectorStates syncedRuleVectorState
                        > indexOf OrderedVectorStates maxVectorState
                   then syncedRuleVectorState else maxVectorState)
           | None \<Rightarrow> maxVectorState)"

definition maximumVectorState ::
  "DefaultRules \<Rightarrow> IAnnotatedPushRule \<Rightarrow> VectorPushRuleDefinition \<Rightarrow> VectorState option" where
  "maximumVectorState defaultRules r definition =
     (case syncedRuleIds definition of
        None \<Rightarrow> None
      | Some ids \<Rightarrow>
          if length ids = 0 then None
          else Some (foldl (maximumStep defaultRules definition)
                           (ruleToVectorState definition r) ids))"

text \<open>
  The specification's \<^verbatim>\<open>computeDisplayState\<close>, written from its words: a sibling that is
  found is read through the sibling's own definition, taken from a table of definitions.
\<close>

definition specStep ::
  "(string \<Rightarrow> VectorPushRuleDefinition) \<Rightarrow> DefaultRules \<Rightarrow> VectorState \<Rightarrow> string \<Rightarrow> VectorState" where
  "specStep definitionOf defaultRules maxVectorState rid =
     (if maxVectorState = Loud then maxVectorState
      else case findInDefaultRules rid defaultRules of
             Some sibling \<Rightarrow>
               (let siblingState = ruleToVectorState (definitionOf (rule_id sibling)) sibling
                in if indexOf OrderedVectorStates siblingState
                        > indexOf OrderedVectorStates maxVectorState
                   then siblingState else maxVectorState)
           | None \<Rightarrow> maxVectorState)"

definition computeDisplayState_spec ::
  "(string \<Rightarrow> VectorPushRuleDefinition) \<Rightarrow> DefaultRules \<Rightarrow> IAnnotatedPushRule
     \<Rightarrow> VectorPushRuleDefinition \<Rightarrow> VectorState" where
  "computeDisplayState_spec definitionOf defaultRules r definition =
     (case syncedRuleIds definition of
        None \<Rightarrow> ruleToVectorState definition r
      | Some ids \<Rightarrow>
          foldl (specStep definitionOf defaultRules) (ruleToVectorState definition r) ids)"

text \<open>The loudest member of a list of states, by membership alone.\<close>

definition loudestOf :: "VectorState list \<Rightarrow> VectorState" where
  "loudestOf vs = (if Loud \<in> set vs then Loud else if On \<in> set vs then On else Off)"

text \<open>The siblings of a synced group that the rule table holds, in list order.\<close>

definition resolvableSiblings :: "DefaultRules \<Rightarrow> string list \<Rightarrow> IAnnotatedPushRule list" where
  "resolvableSiblings defaultRules ids =
     List.map_filter (\<lambda>rid. findInDefaultRules rid defaultRules) ids"

subsection \<open>Concrete rule tables\<close>

definition mkRule :: "string \<Rightarrow> PushRuleKind \<Rightarrow> bool \<Rightarrow> PushRuleAction list \<Rightarrow> IAnnotatedPushRule" where
  "mkRule rid k en acts =
     \<lparr>rule_id = rid, enabled = en, actions = acts, pattern = None, kind = k\<rparr>"

definition exParentRule :: IAnnotatedPushRule where
  "exParentRule = mkRule ''.m.rule.room_one_to_one'' Underride False [Notify]"

definition exSiblingRule :: IAnnotatedPushRule where
  "exSiblingRule = mkRule ''.org.matrix.msc3930.rule.poll_start_one_to_one'' Underride True [Notify]"

definition exDefaultRules :: DefaultRules where
  "exDefaultRules category =
     (if category = VectorGlobal then [exParentRule]
      else if category = Other then [exSiblingRule] else [])"

text \<open>The parent's definition reads an enabled rule as On, the sibling's own as Loud.\<close>

definition exParentDefinition :: VectorPushRuleDefinition where
  "exParentDefinition =
     \<lparr>VectorPushRuleDefinition.description = ''Messages in one-to-one chats'',
      ruleToVectorState = (\<lambda>r. if enabled r then On else Off),
      vectorStateToActions = (\<lambda>s. if s = Off then None else Some [Notify]),
      syncedRuleIds = Some [''.org.matrix.msc3930.rule.poll_start_one_to_one'',
                            ''.org.matrix.msc3930.rule.poll_end_one_to_one'']\<rparr>"

definition exSiblingDefinition :: VectorPushRuleDefinition where
  "exSiblingDefinition =
     \<lparr>VectorPushRuleDefinition.description = ''Polls in one-to-one chats'',
      ruleToVectorState = (\<lambda>r. if enabled r then Loud else Off),
      vectorStateToActions = (\<lambda>s. if s = Off then None else Some [Notify]),
      syncedRuleIds = None\<rparr>"

definition exDefinitionOf :: "string \<Rightarrow> VectorPushRuleDefinition" where
  "exDefinitionOf rid =
     (if rid = ''.m.rule.room_one_to_one'' then exParentDefinition else exSiblingDefinition)"

section \<open>The remote rule service\<close>

text \<open>
  The component reaches the homeserver through the SDK client (\<^verbatim>\<open>MatrixClientPeg.get()\<close>).
  Each call the component makes is a constructor; the scope argument is always
  \<^verbatim>\<open>"global"\<close> and is left out.
\<close>

datatype RemoteCall =
    GetPushRules
  | GetPushers
  | GetThreePids
  | SetPushRuleEnabled PushRuleKind string bool
  | SetPushRuleActions PushRuleKind string "PushRuleAction list"
  | AddPushRule PushRuleKind string "PushRuleAction list" string
  | DeletePushRule PushRuleKind string

datatype Failure =
    RemoteRejected RemoteCall
  | MissingMasterRule
  | TypeError
  | UnnamedSection RuleClass

text \<open>\<^verbatim>\<open>ruleSets.global\<close>: the rules of each kind, in the key order of the object.\<close>

type_synonym RuleSets = "(PushRuleKind \<times> IPushRule list) list"

text \<open>
  The service as the component sees it: the rule sets it stores, the pushers, threepids
  and per-room unread counts the client reports, the calls issued so far, and which calls
  it rejects (\<open>rejects n\<close>: the call issued when \<open>n\<close> calls have been issued before).
\<close>

record Server =
  global :: RuleSets
  serverPushers :: "IPusher list"
  serverThreepids :: "IThreepid list"
  unreadNotificationCounts :: "nat list"
  callLog :: "RemoteCall list"
  rejects :: "nat \<Rightarrow> bool"

definition updateRule :: "PushRuleKind \<Rightarrow> string \<Rightarrow> (IPushRule \<Rightarrow> IPushRule) \<Rightarrow> RuleSets \<Rightarrow> RuleSets" where
  "updateRule k rid f ruleSets =
     map (\<lambda>(k', rs). if k' = k then (k', map (\<lambda>r. if rule_id r = rid then f r else r) rs)
                      else (k', rs)) ruleSets"

definition removeRule :: "PushRuleKind \<Rightarrow> string \<Rightarrow> RuleSets \<Rightarrow> RuleSets" where
  "removeRule k rid ruleSets =
     map (\<lambda>(k', rs). if k' = k then (k', filter (\<lambda>r. rule_id r \<noteq> rid) rs) else (k', rs)) ruleSets"

definition insertRule :: "PushRuleKind \<Rightarrow> IPushRule \<Rightarrow> RuleSets \<Rightarrow> RuleSets" where
  "insertRule k new ruleSets =
     (if k \<in> fst ` set ruleSets
      then map (\<lambda>(k', rs). if k' = k then (k', new # rs) else (k', rs))
               (removeRule k (rule_id new) ruleSets)
      else ruleSets @ [(k, [new])])"

text \<open>
  The effect of an accepted call on the stored rules is the homeserver's, not the
  component's. It follows the contract of the rule service: each mutation touches the one
  rule it names; enabling or disabling sets the flag, setting actions replaces the action
  list, adding stores a new enabled rule, deleting removes it.
\<close>

fun commit :: "RemoteCall \<Rightarrow> RuleSets \<Rightarrow> RuleSets" where
  "commit (SetPushRuleEnabled k rid b) ruleSets = updateRule k rid (\<lambda>r. r\<lparr>enabled := b\<rparr>) ruleSets"
| "commit (SetPushRuleActions k rid acts) ruleSets = updateRule k rid (\<lambda>r. r\<lparr>actions := acts\<rparr>) ruleSets"
| "commit (AddPushRule k rid acts pat) ruleSets =
     insertRule k \<lparr>rule_id = rid, enabled = True, actions = acts, pattern = Some pat\<rparr> ruleSets"
| "commit (DeletePushRule k rid) ruleSets = removeRule k rid ruleSets"
| "commit GetPushRules ruleSets = ruleSets"
| "commit GetPushers ruleSets = ruleSets"
| "commit GetThreePids ruleSets = ruleSets"

text \<open>
  An awaited call: it is recorded as issued; a rejected call throws and changes nothing,
  an accepted one is committed.
\<close>

definition remoteCall :: "RemoteCall \<Rightarrow> Server \<Rightarrow> (Failure + unit) \<times> Server" where
  "remoteCall c srv =
     (let n = length (callLog srv);
          issued = srv\<lparr>callLog := callLog srv @ [c]\<rparr>
      in if rejects srv n then (Inl (RemoteRejected c), issued)
         else (Inr (), issued\<lparr>global := commit c (global srv)\<rparr>))"

text \<open>Sequencing of awaits: a rejection skips everything after it.\<close>

definition andThen ::
  "(Server \<Rightarrow> (Failure + 'a) \<times> Server) \<Rightarrow> ('a \<Rightarrow> Server \<Rightarrow> (Failure + 'b) \<times> Server)
     \<Rightarrow> Server \<Rightarrow> (Failure + 'b) \<times> Server" where
  "andThen m f srv = (case m srv of (Inl e, srv') \<Rightarrow> (Inl e, srv') | (Inr a, srv') \<Rightarrow> f a srv')"

definition resolved :: "Server \<Rightarrow> (Failure + unit) \<times> Server" where
  "resolved srv = (Inr (), srv)"

definition throw :: "Failure \<Rightarrow> Server \<Rightarrow> (Failure + 'a) \<times> Server" where
  "throw e srv = (Inl e, srv)"

text \<open>A \<^verbatim>\<open>for ... of\<close> loop whose body awaits.\<close>

fun forEach :: "('a \<Rightarrow> Server \<Rightarrow> (Failure + unit) \<times> Server) \<Rightarrow> 'a list
                  \<Rightarrow> Server \<Rightarrow> (Failure + unit) \<times> Server" where
  "forEach body [] srv = (Inr (), srv)"
| "forEach body (x # xs) srv =
     (case body x srv of (Inl e, srv') \<Rightarrow> (Inl e, srv') | (Inr u, srv') \<Rightarrow> forEach body xs srv')"

section \<open>Imported collaborators\<close>

text \<open>
  What the component imports from the \<^verbatim>\<open>notifications\<close> module and the SDK's
  \<^verbatim>\<open>PushProcessor\<close>, taken as parameters: the table of definitions, the actions of a
  vector state, the flavour of a content rule, the parser of keyword rules and the lookup
  of a rule the user has. \<open>None\<close> stands for \<^verbatim>\<open>undefined\<close> and \<^verbatim>\<open>null\<close>.
\<close>

record Imports =
  VectorPushRulesDefinitions :: "string \<Rightarrow> VectorPushRuleDefinition option"
  actionsFor :: "VectorState option \<Rightarrow> PushRuleAction list"
  contentRuleVectorStateKind :: "IAnnotatedPushRule \<Rightarrow> VectorState option"
  parseContentRules :: "RuleSets \<Rightarrow> IContentRules"
  getPushRuleAndKindById :: "string \<Rightarrow> (PushRuleKind \<times> IPushRule) option"

section \<open>Mutating rules\<close>

definition setPushRuleActions ::
  "string \<Rightarrow> PushRuleKind \<Rightarrow> PushRuleAction list option \<Rightarrow> Server \<Rightarrow> (Failure + unit) \<times> Server" where
  "setPushRuleActions rid k acts =
     (case acts of
        None \<Rightarrow> remoteCall (SetPushRuleEnabled k rid False)
      | Some as \<Rightarrow>
          andThen (remoteCall (SetPushRuleActions k rid as))
                  (\<lambda>u. remoteCall (SetPushRuleEnabled k rid True)))"

definition updateSyncedRules ::
  "Imports \<Rightarrow> string list option \<Rightarrow> PushRuleAction list option
     \<Rightarrow> Server \<Rightarrow> (Failure + unit) \<times> Server" where
  "updateSyncedRules im ids acts =
     (case ids of
        None \<Rightarrow> resolved
      | Some ruleIds \<Rightarrow>
          (let syncedRules = List.map_filter (getPushRuleAndKindById im) ruleIds
           in if length syncedRules = 0 then resolved
              else forEach (\<lambda>(k, syncedRule). setPushRuleActions (rule_id syncedRule) k acts)
                           syncedRules))"

section \<open>Refreshing from the server\<close>

text \<open>The rule identifiers of the SDK's \<^verbatim>\<open>RuleId\<close> enumeration that the component names.\<close>

definition RuleId_Master :: string where "RuleId_Master = ''.m.rule.master''"
definition RuleId_DM :: string where "RuleId_DM = ''.m.rule.room_one_to_one''"
definition RuleId_EncryptedDM :: string where "RuleId_EncryptedDM = ''.m.rule.encrypted_room_one_to_one''"
definition RuleId_Message :: string where "RuleId_Message = ''.m.rule.message''"
definition RuleId_EncryptedMessage :: string where "RuleId_EncryptedMessage = ''.m.rule.encrypted''"
definition RuleId_ContainsDisplayName :: string where "RuleId_ContainsDisplayName = ''.m.rule.contains_display_name''"
definition RuleId_ContainsUserName :: string where "RuleId_ContainsUserName = ''.m.rule.contains_user_name''"
definition RuleId_AtRoomNotification :: string where "RuleId_AtRoomNotification = ''.m.rule.roomnotif''"
definition RuleId_InviteToSelf :: string where "RuleId_InviteToSelf = ''.m.rule.invite_for_me''"
definition RuleId_IncomingCall :: string where "RuleId_IncomingCall = ''.m.rule.call''"
definition RuleId_SuppressNotices :: string where "RuleId_SuppressNotices = ''.m.rule.suppress_notices''"
definition RuleId_Tombstone :: string where "RuleId_Tombstone = ''.m.rule.tombstone''"

definition KEYWORD_RULE_ID :: string where
  "KEYWORD_RULE_ID = ''_keywords''"

definition KEYWORD_RULE_CATEGORY :: RuleClass where
  "KEYWORD_RULE_CATEGORY = VectorMentions"

definition RULE_DISPLAY_ORDER :: "string list" where
  "RULE_DISPLAY_ORDER =
     [RuleId_DM, RuleId_EncryptedDM, RuleId_Message, RuleId_EncryptedMessage,
      RuleId_ContainsDisplayName, RuleId_ContainsUserName, RuleId_AtRoomNotification,
      RuleId_InviteToSelf, RuleId_IncomingCall, RuleId_SuppressNotices, RuleId_Tombstone]"

definition categories :: "string \<Rightarrow> RuleClass option" where
  "categories =
     map_of [(RuleId_Master, Master),
             (RuleId_DM, VectorGlobal), (RuleId_EncryptedDM, VectorGlobal),
             (RuleId_Message, VectorGlobal), (RuleId_EncryptedMessage, VectorGlobal),
             (RuleId_ContainsDisplayName, VectorMentions),
             (RuleId_ContainsUserName, VectorMentions),
             (RuleId_AtRoomNotification, VectorMentions),
             (RuleId_InviteToSelf, VectorOther), (RuleId_IncomingCall, VectorOther),
             (RuleId_SuppressNotices, VectorOther), (RuleId_Tombstone, VectorOther)]"

text \<open>\<^verbatim>\<open>Object.assign(r, { kind })\<close>.\<close>

definition annotate :: "IPushRule \<Rightarrow> PushRuleKind \<Rightarrow> IAnnotatedPushRule" where
  "annotate r k =
     \<lparr>rule_id = rule_id r, enabled = enabled r, actions = actions r, pattern = pattern r,
      kind = k\<rparr>"

text \<open>The body of the inner loop over the fetched rules: default rules go to their class.\<close>

definition pushDefaultRule :: "PushRuleKind \<Rightarrow> DefaultRules \<Rightarrow> IPushRule \<Rightarrow> DefaultRules" where
  "pushDefaultRule k defaultRules r =
     (let annotated = annotate r k;
          category = (case categories (rule_id annotated) of Some c \<Rightarrow> c | None \<Rightarrow> Other)
      in if take 1 (rule_id annotated) = ''.''
         then defaultRules(category := defaultRules category @ [annotated])
         else defaultRules)"

definition collectDefaultRules :: "RuleSets \<Rightarrow> DefaultRules" where
  "collectDefaultRules ruleSets =
     foldl (\<lambda>defaultRules (k, rs). foldl (pushDefaultRule k) defaultRules rs) (\<lambda>category. []) ruleSets"

fun prepareRules :: "Imports \<Rightarrow> DefaultRules \<Rightarrow> IAnnotatedPushRule list \<Rightarrow> Failure + IVectorPushRule list" where
  "prepareRules im defaultRules [] = Inr []"
| "prepareRules im defaultRules (r # rs) =
     (case VectorPushRulesDefinitions im (rule_id r) of
        None \<Rightarrow> Inl TypeError
      | Some definition \<Rightarrow>
          (case prepareRules im defaultRules rs of
             Inl e \<Rightarrow> Inl e
           | Inr rows \<Rightarrow>
               Inr (\<lparr>ruleId = rule_id r, rule = Some r,
                     description = VectorPushRuleDefinition.description definition,
                     IVectorPushRule.vectorState = ruleToVectorState definition r,
                     syncedVectorState = maximumVectorState defaultRules r definition\<rparr> # rows)))"

definition displayIndex :: "string \<Rightarrow> int" where
  "displayIndex rid =
     (let idx = indexOf RULE_DISPLAY_ORDER rid
      in if idx < 0 then int (length RULE_DISPLAY_ORDER) else idx)"

definition keywordRow :: "IContentRules \<Rightarrow> IVectorPushRule" where
  "keywordRow info =
     \<lparr>ruleId = KEYWORD_RULE_ID, rule = None, description = ''Messages containing keywords'',
      IVectorPushRule.vectorState = vectorState info, syncedVectorState = None\<rparr>"

definition vectorCategories :: "RuleClass list" where
  "vectorCategories = [VectorGlobal, VectorMentions, VectorOther]"

fun prepareCategories ::
  "Imports \<Rightarrow> DefaultRules \<Rightarrow> IContentRules \<Rightarrow> RuleClass list
     \<Rightarrow> (RuleClass \<Rightarrow> IVectorPushRule list option)
     \<Rightarrow> Failure + (RuleClass \<Rightarrow> IVectorPushRule list option)" where
  "prepareCategories im defaultRules info [] prepared = Inr prepared"
| "prepareCategories im defaultRules info (category # rest) prepared =
     (case prepareRules im defaultRules (defaultRules category) of
        Inl e \<Rightarrow> Inl e
      | Inr rows \<Rightarrow>
          (let sorted = sort_key (\<lambda>row. displayIndex (ruleId row)) rows;
               shown = (if category = KEYWORD_RULE_CATEGORY then sorted @ [keywordRow info]
                        else sorted)
           in prepareCategories im defaultRules info rest (prepared(category \<mapsto> shown))))"

text \<open>
  \<^verbatim>\<open>refreshRules\<close> after its \<^verbatim>\<open>getPushRules\<close> call has resolved with \<open>ruleSets\<close>: the
  prepared master rule, keyword rule info and rows per category, or the error thrown.
\<close>

definition refreshRules ::
  "Imports \<Rightarrow> RuleSets
     \<Rightarrow> Failure + (IAnnotatedPushRule \<times> IContentRules \<times> (RuleClass \<Rightarrow> IVectorPushRule list option))" where
  "refreshRules im ruleSets =
     (let defaultRules = collectDefaultRules ruleSets
      in case defaultRules Master of
           [] \<Rightarrow> Inl MissingMasterRule
         | master # others \<Rightarrow>
             (let info = parseContentRules im ruleSets
              in case prepareCategories im defaultRules info vectorCategories (\<lambda>category. None) of
                   Inl e \<Rightarrow> Inl e
                 | Inr prepared \<Rightarrow> Inr (master, info, prepared)))"

text \<open>
  The component with what it acts on: its React state, the client, and the number of
  error dialogs \<^verbatim>\<open>showSaveError\<close> has opened.
\<close>

record World =
  state :: IState
  client :: Server
  saveErrorsShown :: nat

text \<open>
  \<^verbatim>\<open>refreshFromServer\<close>: the three fetches are started together, so all three calls are
  issued; any rejection, or an error thrown by \<^verbatim>\<open>refreshRules\<close>, ends in phase Error.
\<close>

definition refreshFromServer :: "Imports \<Rightarrow> World \<Rightarrow> World" where
  "refreshFromServer im w =
     (let (rulesResult, srv1) = remoteCall GetPushRules (client w);
          (pushersResult, srv2) = remoteCall GetPushers srv1;
          (threepidsResult, srv3) = remoteCall GetThreePids srv2;
          newState =
            (case rulesResult of
               Inl e \<Rightarrow> Inl e
             | Inr u \<Rightarrow>
                 (case refreshRules im (global srv1) of
                    Inl e \<Rightarrow> Inl e
                  | Inr prepared \<Rightarrow>
                      (case pushersResult of
                         Inl e \<Rightarrow> Inl e
                       | Inr u \<Rightarrow>
                           (case threepidsResult of
                              Inl e \<Rightarrow> Inl e
                            | Inr u \<Rightarrow> Inr prepared))))
      in case newState of
           Inr (master, info, prepared) \<Rightarrow>
             w\<lparr>state := (state w)\<lparr>masterPushRule := Some master,
                                   vectorKeywordRuleInfo := Some info,
                                   vectorPushRules := Some prepared,
                                   pushers := Some (serverPushers srv3),
                                   threepids := Some (serverThreepids srv3),
                                   phase := Ready\<rparr>,
               client := srv3\<rparr>
         | Inl e \<Rightarrow> w\<lparr>state := (state w)\<lparr>phase := Error\<rparr>, client := srv3\<rparr>)"

section \<open>Choosing a state for a rule or for the keywords\<close>

text \<open>The body of the loop over the keyword rules in \<^verbatim>\<open>onRadioChecked\<close>.\<close>

definition keywordMutation ::
  "Imports \<Rightarrow> IContentRules \<Rightarrow> VectorState \<Rightarrow> IAnnotatedPushRule
     \<Rightarrow> Server \<Rightarrow> (Failure + unit) \<times> Server" where
  "keywordMutation im info checkedState r =
     (let (acts, en) =
            (if checkedState = On then
               (if length (actions r) \<noteq> 1 then Some (actionsFor im (Some checkedState)) else None,
                if vectorState info = Off then Some True else None)
             else if checkedState = Loud then
               (if length (actions r) \<noteq> 3 then Some (actionsFor im (Some checkedState)) else None,
                if vectorState info = Off then Some True else None)
             else (None, Some False))
      in andThen (case acts of
                    Some as \<Rightarrow> remoteCall (SetPushRuleActions (kind r) (rule_id r) as)
                  | None \<Rightarrow> resolved)
                 (\<lambda>u. case en of
                         Some b \<Rightarrow> remoteCall (SetPushRuleEnabled (kind r) (rule_id r) b)
                       | None \<Rightarrow> resolved))"

definition radioMutations ::
  "Imports \<Rightarrow> IState \<Rightarrow> IVectorPushRule \<Rightarrow> VectorState \<Rightarrow> Server \<Rightarrow> (Failure + unit) \<times> Server" where
  "radioMutations im st row checkedState =
     (if ruleId row = KEYWORD_RULE_ID then
        (case vectorKeywordRuleInfo st of
           None \<Rightarrow> throw TypeError
         | Some info \<Rightarrow> forEach (keywordMutation im info checkedState) (rules info))
      else
        (case VectorPushRulesDefinitions im (ruleId row) of
           None \<Rightarrow> throw TypeError
         | Some definition \<Rightarrow>
             (let acts = vectorStateToActions definition checkedState
              in case rule row of
                   None \<Rightarrow> throw TypeError
                 | Some r \<Rightarrow>
                     andThen (setPushRuleActions (rule_id r) (kind r) acts)
                             (\<lambda>u. updateSyncedRules im (syncedRuleIds definition) acts))))"

definition onRadioChecked :: "Imports \<Rightarrow> IVectorPushRule \<Rightarrow> VectorState \<Rightarrow> World \<Rightarrow> World" where
  "onRadioChecked im row checkedState w =
     (let persisting = (state w)\<lparr>phase := Persisting\<rparr>
      in case radioMutations im persisting row checkedState (client w) of
           (Inr u, srv') \<Rightarrow> refreshFromServer im (w\<lparr>state := persisting, client := srv'\<rparr>)
         | (Inl e, srv') \<Rightarrow>
             w\<lparr>state := persisting\<lparr>phase := Error\<rparr>, client := srv',
               saveErrorsShown := saveErrorsShown w + 1\<rparr>)"

section \<open>Editing the keyword list\<close>

text \<open>\<^verbatim>\<open>Array.from(new Set(xs))\<close>: the members in order of first occurrence.\<close>

fun setInsertAll :: "'a list \<Rightarrow> 'a list \<Rightarrow> 'a list" where
  "setInsertAll seen [] = seen"
| "setInsertAll seen (x # xs) =
     (if x \<in> set seen then setInsertAll seen xs else setInsertAll (seen @ [x]) xs)"

definition arrayFromSet :: "'a list \<Rightarrow> 'a list" where
  "arrayFromSet xs = setInsertAll [] xs"

text \<open>
  \<^verbatim>\<open>Array.from(new Set(keywords)).filter((k) => !!k)\<close>: a pattern may be \<^verbatim>\<open>undefined\<close>
  (\<open>None\<close>); \<^verbatim>\<open>undefined\<close> and the empty string are falsy.
\<close>

definition dedupeNonEmpty :: "string option list \<Rightarrow> string list" where
  "dedupeNonEmpty ks =
     List.map_filter (\<lambda>k. case k of None \<Rightarrow> None | Some word \<Rightarrow> if word = [] then None else Some word)
                     (arrayFromSet ks)"

record 'a Diff =
  added :: "'a list"
  removed :: "'a list"

text \<open>
  Modelled from the spec: \<^verbatim>\<open>arrayDiff\<close> of \<^verbatim>\<open>utils/arrays\<close> is imported by the component
  and is not among the sources. The specification calls the operation a pure set diff
  (added, removed): the members of the new list that the old one lacks, and the members
  of the old list that the new one lacks.
\<close>

definition arrayDiff :: "'a list \<Rightarrow> 'a list \<Rightarrow> 'a Diff" where
  "arrayDiff a b =
     \<lparr>added = filter (\<lambda>i. i \<notin> set a) b, removed = filter (\<lambda>i. i \<notin> set b) a\<rparr>"

text \<open>The first three statements of \<^verbatim>\<open>setKeywords\<close>, the specification's \<^verbatim>\<open>diffKeywords\<close>.\<close>

definition diffKeywords :: "string option list \<Rightarrow> string option list \<Rightarrow> string Diff" where
  "diffKeywords oldWords newWords =
     arrayDiff (dedupeNonEmpty oldWords) (dedupeNonEmpty newWords)"

definition deleteRemoved :: "IAnnotatedPushRule list \<Rightarrow> string list \<Rightarrow> Server \<Rightarrow> (Failure + unit) \<times> Server" where
  "deleteRemoved originalRules removedWords =
     forEach (\<lambda>word. forEach (\<lambda>r. remoteCall (DeletePushRule (kind r) (rule_id r)))
                             (filter (\<lambda>r. pattern r = Some word) originalRules))
             removedWords"

text \<open>
  The state the new rules are created with: \<^verbatim>\<open>ruleVectorState\<close> after the \<^verbatim>\<open>if\<close> that
  reassigns it when the aggregate state is Off.
\<close>

definition newRuleVectorState :: "Imports \<Rightarrow> IContentRules \<Rightarrow> IAnnotatedPushRule list \<Rightarrow> VectorState option" where
  "newRuleVectorState im info originalRules =
     (if vectorState info = Off then
        (case originalRules of
           first # others \<Rightarrow> contentRuleVectorStateKind im first
         | [] \<Rightarrow> Some On)
      else Some (vectorState info))"

text \<open>The body of the loop over the added words.\<close>

definition addKeyword :: "Imports \<Rightarrow> VectorState option \<Rightarrow> string \<Rightarrow> Server \<Rightarrow> (Failure + unit) \<times> Server" where
  "addKeyword im ruleVectorState word =
     andThen (remoteCall (AddPushRule ContentSpecific word (actionsFor im ruleVectorState) word))
             (\<lambda>u. if ruleVectorState = Some Off
                   then remoteCall (SetPushRuleEnabled ContentSpecific word False)
                   else resolved)"

definition keywordMutations ::
  "Imports \<Rightarrow> IState \<Rightarrow> string option list \<Rightarrow> IAnnotatedPushRule list
     \<Rightarrow> Server \<Rightarrow> (Failure + unit) \<times> Server" where
  "keywordMutations im st keywords originalRules =
     (let diff = diffKeywords (map pattern originalRules) keywords
      in andThen (deleteRemoved originalRules (removed diff))
           (\<lambda>u. case vectorKeywordRuleInfo st of
                   None \<Rightarrow> throw TypeError
                 | Some info \<Rightarrow>
                     forEach (addKeyword im (newRuleVectorState im info originalRules))
                             (added diff)))"

definition setKeywords :: "Imports \<Rightarrow> string option list \<Rightarrow> IAnnotatedPushRule list \<Rightarrow> World \<Rightarrow> World" where
  "setKeywords im keywords originalRules w =
     (case keywordMutations im (state w) keywords originalRules (client w) of
        (Inr u, srv') \<Rightarrow> refreshFromServer im (w\<lparr>client := srv'\<rparr>)
      | (Inl e, srv') \<Rightarrow>
          w\<lparr>state := (state w)\<lparr>phase := Error\<rparr>, client := srv',
            saveErrorsShown := saveErrorsShown w + 1\<rparr>)"

section \<open>Rendering\<close>

text \<open>
  What \<^verbatim>\<open>render\<close> returns, as a tree of the elements the component creates. A fragment
  is a list of elements and \<^verbatim>\<open>null\<close> the empty list. Switches carry their test id, their
  key (the address of an email switch), value and disabled flag.
\<close>

datatype Element =
    Spinner
  | ErrorMessage
  | LabelledToggleSwitch string string bool bool
  | AccessibleButton string bool
  | TagComposer "string option list option" bool
  | StyledRadioButton string VectorState bool bool
  | Fieldset string string "Element list"
  | Grid string string "Element list"
  | FloatingSection string "Element list"
  | TargetsTable "(string \<times> string) list"
  | Container "Element list"

definition ruleClassValue :: "RuleClass \<Rightarrow> string" where
  "ruleClassValue category =
     (case category of
        Master \<Rightarrow> ''master'' | VectorGlobal \<Rightarrow> ''vector_global''
      | VectorMentions \<Rightarrow> ''vector_mentions'' | VectorOther \<Rightarrow> ''vector_other''
      | Other \<Rightarrow> ''other'')"

definition isInhibited :: "IState \<Rightarrow> bool" where
  "isInhibited st = (case masterPushRule st of None \<Rightarrow> False | Some master \<Rightarrow> enabled master)"

definition masterSwitch :: "IState \<Rightarrow> Element" where
  "masterSwitch st =
     LabelledToggleSwitch ''notif-master-switch'' [] (\<not> isInhibited st) (phase st = Persisting)"

definition emailSwitches :: "IState \<Rightarrow> Failure + Element list" where
  "emailSwitches st =
     (let emails = filter (\<lambda>t. medium t = Email) (case threepids st of None \<Rightarrow> [] | Some ts \<Rightarrow> ts)
      in if emails = [] then Inr []
         else case pushers st of
                None \<Rightarrow> Inl TypeError
              | Some ps \<Rightarrow>
                  Inr (map (\<lambda>e. LabelledToggleSwitch ''notif-email-switch'' (address e)
                                  (list_ex (\<lambda>p. IPusher.kind p = Some ''email'' \<and> pushkey p = address e) ps)
                                  (phase st = Persisting))
                           emails))"

definition renderTopSection :: "IState \<Rightarrow> Failure + Element list" where
  "renderTopSection st =
     (if isInhibited st then Inr [masterSwitch st]
      else case emailSwitches st of
             Inl e \<Rightarrow> Inl e
           | Inr switches \<Rightarrow>
               Inr ([masterSwitch st,
                     LabelledToggleSwitch ''notif-device-switch'' []
                       (deviceNotificationsEnabled st) (phase st = Persisting)]
                    @ (if deviceNotificationsEnabled st then
                         [LabelledToggleSwitch ''notif-setting-notificationsEnabled'' []
                            (desktopNotifications st) (phase st = Persisting),
                          LabelledToggleSwitch ''notif-setting-notificationBodyEnabled'' []
                            (desktopShowBody st) (phase st = Persisting),
                          LabelledToggleSwitch ''notif-setting-audioNotificationsEnabled'' []
                            (audioNotifications st) (phase st = Persisting)]
                       else [])
                    @ switches))"

definition makeRadio :: "IState \<Rightarrow> IVectorPushRule \<Rightarrow> VectorState \<Rightarrow> Element" where
  "makeRadio st row s =
     StyledRadioButton (ruleId row) s
       ((case syncedVectorState row of Some v \<Rightarrow> v | None \<Rightarrow> IVectorPushRule.vectorState row) = s)
       (phase st = Persisting)"

definition fieldsetRow :: "IState \<Rightarrow> RuleClass \<Rightarrow> IVectorPushRule \<Rightarrow> Element" where
  "fieldsetRow st category row =
     Fieldset (ruleClassValue category @ ruleId row) (description row)
       [makeRadio st row Off, makeRadio st row On, makeRadio st row Loud]"

definition renderCategory :: "IState \<Rightarrow> Server \<Rightarrow> RuleClass \<Rightarrow> Failure + Element list" where
  "renderCategory st srv category =
     (if category \<noteq> VectorOther \<and> isInhibited st then Inr []
      else
        (let clearNotifsButton =
               (if category = VectorOther \<and> list_ex (\<lambda>n. n > 0) (unreadNotificationCounts srv)
                then [AccessibleButton ''clear-notifications'' (clearingNotifications st)]
                else [])
         in if category = VectorOther \<and> isInhibited st then
              (if clearNotifsButton \<noteq> [] then Inr [FloatingSection ''Other'' clearNotifsButton]
               else Inr [])
            else
              (let keywordComposer =
                     (if category = VectorMentions
                      then [TagComposer (map_option (\<lambda>info. map pattern (rules info))
                                                    (vectorKeywordRuleInfo st))
                                        (phase st = Persisting)]
                      else [])
               in case vectorPushRules st of
                    None \<Rightarrow> Inl TypeError
                  | Some prepared \<Rightarrow>
                      (let fieldsetRows =
                             (case prepared category of
                                None \<Rightarrow> []
                              | Some rows \<Rightarrow> map (fieldsetRow st category) rows)
                       in case (case category of
                                  VectorGlobal \<Rightarrow> Some ''Global''
                                | VectorMentions \<Rightarrow> Some ''Mentions & keywords''
                                | VectorOther \<Rightarrow> Some ''Other''
                                | Master \<Rightarrow> None
                                | Other \<Rightarrow> None) of
                            None \<Rightarrow> Inl (UnnamedSection category)
                          | Some sectionName \<Rightarrow>
                              Inr ([Grid (''notif-section-'' @ ruleClassValue category)
                                         sectionName fieldsetRows]
                                   @ clearNotifsButton @ keywordComposer)))))"

definition renderTargets :: "IState \<Rightarrow> Failure + Element list" where
  "renderTargets st =
     (if isInhibited st then Inr []
      else case pushers st of
             None \<Rightarrow> Inl TypeError
           | Some ps \<Rightarrow>
               (if length ps = 0 then Inr []
                else Inr [FloatingSection ''Notification targets''
                            [TargetsTable (map (\<lambda>p. (app_display_name p, device_display_name p)) ps)]]))"

definition render :: "IState \<Rightarrow> Server \<Rightarrow> Failure + Element" where
  "render st srv =
     (if phase st = Loading then Inr Spinner
      else if phase st = Error then Inr ErrorMessage
      else case renderTopSection st of
             Inl e \<Rightarrow> Inl e
           | Inr topSection \<Rightarrow>
               (case renderCategory st srv VectorGlobal of
                  Inl e \<Rightarrow> Inl e
                | Inr globalSection \<Rightarrow>
                    (case renderCategory st srv VectorMentions of
                       Inl e \<Rightarrow> Inl e
                     | Inr mentionsSection \<Rightarrow>
                         (case renderCategory st srv VectorOther of
                            Inl e \<Rightarrow> Inl e
                          | Inr otherSection \<Rightarrow>
                              (case renderTargets st of
                                 Inl e \<Rightarrow> Inl e
                               | Inr targets \<Rightarrow>
                                   Inr (Container (topSection @ globalSection @ mentionsSection
                                                   @ otherSection @ targets)))))))"

section \<open>Call sequences\<close>

text \<open>
  Vocabulary for stating what a handler sends: a list of calls issued one after the
  other, each awaited before the next.
\<close>

definition issue :: "RemoteCall list \<Rightarrow> Server \<Rightarrow> (Failure + unit) \<times> Server" where
  "issue cs = forEach remoteCall cs"

text \<open>The calls \<^verbatim>\<open>setPushRuleActions\<close> makes for one rule.\<close>

definition ruleCalls :: "PushRuleKind \<Rightarrow> string \<Rightarrow> PushRuleAction list option \<Rightarrow> RemoteCall list" where
  "ruleCalls k rid acts =
     (case acts of
        None \<Rightarrow> [SetPushRuleEnabled k rid False]
      | Some as \<Rightarrow> [SetPushRuleActions k rid as, SetPushRuleEnabled k rid True])"

text \<open>The synced rules of a definition that exist for the user, in list order.\<close>

definition existingSyncedRules :: "Imports \<Rightarrow> string list option \<Rightarrow> (PushRuleKind \<times> IPushRule) list" where
  "existingSyncedRules im ids =
     List.map_filter (getPushRuleAndKindById im) (case ids of None \<Rightarrow> [] | Some ruleIds \<Rightarrow> ruleIds)"

text \<open>The calls the loop over the keyword rules makes for one keyword rule.\<close>

definition keywordCalls ::
  "Imports \<Rightarrow> IContentRules \<Rightarrow> VectorState \<Rightarrow> IAnnotatedPushRule \<Rightarrow> RemoteCall list" where
  "keywordCalls im info checkedState r =
     (case checkedState of
        On \<Rightarrow>
          (if length (actions r) \<noteq> 1
           then [SetPushRuleActions (kind r) (rule_id r) (actionsFor im (Some On))] else [])
          @ (if vectorState info = Off then [SetPushRuleEnabled (kind r) (rule_id r) True] else [])
      | Loud \<Rightarrow>
          (if length (actions r) \<noteq> 3
           then [SetPushRuleActions (kind r) (rule_id r) (actionsFor im (Some Loud))] else [])
          @ (if vectorState info = Off then [SetPushRuleEnabled (kind r) (rule_id r) True] else [])
      | Off \<Rightarrow> [SetPushRuleEnabled (kind r) (rule_id r) False])"

text \<open>The rule the service stores under a kind and an identifier.\<close>

definition storedRule :: "RuleSets \<Rightarrow> PushRuleKind \<Rightarrow> string \<Rightarrow> IPushRule option" where
  "storedRule ruleSets k rid =
     (case map_of ruleSets k of
        None \<Rightarrow> None
      | Some rs \<Rightarrow> find (\<lambda>r. rule_id r = rid) rs)"

definition commitAll :: "RemoteCall list \<Rightarrow> RuleSets \<Rightarrow> RuleSets" where
  "commitAll cs ruleSets = foldl (\<lambda>stored c. commit c stored) ruleSets cs"

definition refreshCalls :: "RemoteCall list" where
  "refreshCalls = [GetPushRules, GetPushers, GetThreePids]"

subsection \<open>A concrete account\<close>

definition exPollEndRule :: IAnnotatedPushRule where
  "exPollEndRule = mkRule ''.org.matrix.msc3930.rule.poll_end_one_to_one'' Underride True [Notify]"

definition exMasterRule :: IAnnotatedPushRule where
  "exMasterRule = mkRule ''.m.rule.master'' Override False []"

definition plain :: "IAnnotatedPushRule \<Rightarrow> IPushRule" where
  "plain r = \<lparr>rule_id = rule_id r, enabled = enabled r, actions = actions r, pattern = pattern r\<rparr>"

definition exKeywordRule :: "string \<Rightarrow> IAnnotatedPushRule" where
  "exKeywordRule word =
     \<lparr>rule_id = word, enabled = True, actions = [Notify], pattern = Some word,
      kind = ContentSpecific\<rparr>"

definition exKeywordInfo :: IContentRules where
  "exKeywordInfo =
     \<lparr>vectorState = On,
      rules = [exKeywordRule ''alpha'', exKeywordRule ''beta'', exKeywordRule ''gamma''],
      externalRules = []\<rparr>"

definition exImports :: Imports where
  "exImports =
     \<lparr>VectorPushRulesDefinitions =
        (\<lambda>rid. if rid = ''.m.rule.room_one_to_one'' then Some exParentDefinition else None),
      actionsFor =
        (\<lambda>s. if s = Some On then [Notify]
              else if s = Some Loud then [Notify, SetTweakHighlight True, SetTweakSound ''default'']
              else []),
      contentRuleVectorStateKind =
        (\<lambda>r. if length (actions r) = 1 then Some On
              else if length (actions r) = 3 then Some Loud else None),
      parseContentRules = (\<lambda>ruleSets. exKeywordInfo),
      getPushRuleAndKindById =
        (\<lambda>rid. if rid = ''.org.matrix.msc3930.rule.poll_start_one_to_one''
                then Some (Underride, plain exSiblingRule)
                else if rid = ''.org.matrix.msc3930.rule.poll_end_one_to_one''
                then Some (Underride, plain exPollEndRule)
                else None)\<rparr>"

definition exRuleSets :: RuleSets where
  "exRuleSets =
     [(Override, [plain exMasterRule]),
      (ContentSpecific, [plain (exKeywordRule ''alpha''), plain (exKeywordRule ''beta''),
                         plain (exKeywordRule ''gamma'')]),
      (Underride, [plain exParentRule, plain exSiblingRule, plain exPollEndRule])]"

definition exServer :: "(nat \<Rightarrow> bool) \<Rightarrow> Server" where
  "exServer rej =
     \<lparr>global = exRuleSets, serverPushers = [], serverThreepids = [],
      unreadNotificationCounts = [], callLog = [], rejects = rej\<rparr>"

definition exState :: IState where
  "exState =
     \<lparr>phase = Ready, masterPushRule = Some exMasterRule,
      vectorKeywordRuleInfo = Some exKeywordInfo, vectorPushRules = Some (\<lambda>category. None),
      pushers = Some [], threepids = Some [],
      deviceNotificationsEnabled = True, desktopNotifications = True, desktopShowBody = True,
      audioNotifications = True, clearingNotifications = False\<rparr>"

definition exWorld :: "(nat \<Rightarrow> bool) \<Rightarrow> World" where
  "exWorld rej = \<lparr>state = exState, client = exServer rej, saveErrorsShown = 0\<rparr>"

definition exParentRow :: IVectorPushRule where
  "exParentRow =
     \<lparr>ruleId = ''.m.rule.room_one_to_one'', rule = Some exParentRule,
      description = ''Messages in one-to-one chats'',
      IVectorPushRule.vectorState = Off, syncedVectorState = Some On\<rparr>"

definition exPlanned :: "RemoteCall list" where
  "exPlanned =
     [SetPushRuleActions Underride ''.m.rule.room_one_to_one'' [Notify],
      SetPushRuleEnabled Underride ''.m.rule.room_one_to_one'' True,
      SetPushRuleActions Underride ''.org.matrix.msc3930.rule.poll_start_one_to_one'' [Notify],
      SetPushRuleEnabled Underride ''.org.matrix.msc3930.rule.poll_start_one_to_one'' True,
      SetPushRuleActions Underride ''.org.matrix.msc3930.rule.poll_end_one_to_one'' [Notify],
      SetPushRuleEnabled Underride ''.org.matrix.msc3930.rule.poll_end_one_to_one'' True]"

definition exKeywordsRow :: IVectorPushRule where
  "exKeywordsRow = keywordRow exKeywordInfo"

definition exNoMasterWorld :: World where
  "exNoMasterWorld =
     \<lparr>state = exState\<lparr>phase := Persisting\<rparr>,
      client = (exServer (\<lambda>n. False))\<lparr>global := [(Underride, [plain exParentRule])]\<rparr>,
      saveErrorsShown = 0\<rparr>"

definition exInhibitedState :: IState where
  "exInhibitedState = exState\<lparr>masterPushRule := Some (exMasterRule\<lparr>enabled := True\<rparr>)\<rparr>"

definition exUnreadServer :: Server where
  "exUnreadServer = (exServer (\<lambda>n. False))\<lparr>unreadNotificationCounts := [0, 2]\<rparr>"

definition exOffWorld :: World where
  "exOffWorld =
     \<lparr>state = exState\<lparr>phase := Persisting,
                        vectorKeywordRuleInfo :=
                          Some \<lparr>vectorState = Off, rules = [], externalRules = []\<rparr>\<rparr>,
      client = (exServer (\<lambda>n. False))\<lparr>global := [(Override, [plain exMasterRule]),
                                                   (ContentSpecific, [])]\<rparr>,
      saveErrorsShown = 0\<rparr>"

subsection \<open>Further concrete rules\<close>









section \<open>Properties of the loudest state\<close>

lemma indexOf_Off [simp]: "indexOf OrderedVectorStates Off = 0"
  by (simp add: indexOf_def OrderedVectorStates_def)

lemma indexOf_On [simp]: "indexOf OrderedVectorStates On = 1"
  by (simp add: indexOf_def OrderedVectorStates_def)

lemma indexOf_Loud [simp]: "indexOf OrderedVectorStates Loud = 2"
  by (simp add: indexOf_def OrderedVectorStates_def)

lemma indexOf_states_inj:
  "indexOf OrderedVectorStates v = indexOf OrderedVectorStates w \<Longrightarrow> v = w"
  by (cases v; cases w) simp_all

lemma maximumStep_Loud [simp]: "maximumStep defaultRules definition Loud rid = Loud"
  by (simp add: maximumStep_def)

lemma maximumStep_missing:
  "findInDefaultRules rid defaultRules = None \<Longrightarrow>
   maximumStep defaultRules definition m rid = m"
  by (simp add: maximumStep_def)

lemma maximumStep_found:
  "findInDefaultRules rid defaultRules = Some s \<Longrightarrow>
   maximumStep defaultRules definition m rid = loudestOf [m, ruleToVectorState definition s]"
  by (cases m; cases "ruleToVectorState definition s")
     (simp_all add: maximumStep_def loudestOf_def Let_def)

lemma loudestOf_absorb: "loudestOf (loudestOf [m, v] # vs) = loudestOf (m # v # vs)"
  by (cases m; cases v) (auto simp: loudestOf_def)

lemma foldl_maximumStep:
  "foldl (maximumStep defaultRules definition) m ids =
   loudestOf (m # map (ruleToVectorState definition) (resolvableSiblings defaultRules ids))"
proof (induction ids arbitrary: m)
  case Nil
  show ?case
    by (cases m) (simp_all add: resolvableSiblings_def List.map_filter_simps loudestOf_def)
next
  case (Cons rid ids)
  show ?case
  proof (cases "findInDefaultRules rid defaultRules")
    case None
    then show ?thesis
      using Cons.IH [of m]
      by (simp add: maximumStep_missing resolvableSiblings_def List.map_filter_simps)
  next
    case (Some s)
    then show ?thesis
      using Cons.IH [of "loudestOf [m, ruleToVectorState definition s]"]
      by (simp add: maximumStep_found resolvableSiblings_def List.map_filter_simps
                    loudestOf_absorb)
  qed
qed

lemma loudestOf_upper:
  "v \<in> set vs \<Longrightarrow> indexOf OrderedVectorStates v \<le> indexOf OrderedVectorStates (loudestOf vs)"
  by (cases v) (auto simp: loudestOf_def)

lemma loudestOf_attained: "loudestOf (m # vs) \<in> set (m # vs)"
proof (cases "loudestOf (m # vs) = Off")
  case True
  then have "Loud \<notin> set (m # vs)" "On \<notin> set (m # vs)"
    by (auto simp: loudestOf_def split: if_splits)
  then have "m = Off" by (cases m) auto
  with True show ?thesis by simp
next
  case False
  then show ?thesis by (auto simp: loudestOf_def split: if_splits)
qed

lemma set_resolvableSiblings:
  "set (resolvableSiblings defaultRules ids) =
   {s. \<exists>rid \<in> set ids. findInDefaultRules rid defaultRules = Some s}"
  by (induction ids) (auto simp: resolvableSiblings_def List.map_filter_simps split: option.splits)

text \<open>
  C1 (as amended). For a rule whose definition has a non-empty \<^verbatim>\<open>syncedRuleIds\<close> list,
  \<^verbatim>\<open>maximumVectorState\<close> reads every sibling found in the rule table through the
  \<^emph>\<open>parent's\<close> definition (the \<^verbatim>\<open>definition\<close> argument): its result is the loudest of
  the parent definition's \<^verbatim>\<open>ruleToVectorState\<close> applied to the rule itself and to each
  resolvable sibling. No other definition enters the computation.
\<close>

theorem maximumVectorState_reads_siblings_through_parent_definition:
  assumes "syncedRuleIds definition = Some ids" and "ids \<noteq> []"
  shows "maximumVectorState defaultRules r definition =
         Some (loudestOf (ruleToVectorState definition r
                 # map (ruleToVectorState definition) (resolvableSiblings defaultRules ids)))"
  using assms by (simp add: maximumVectorState_def foldl_maximumStep)

theorem maximumVectorState_reads_siblings_through_parent_definition_witness:
  "syncedRuleIds exParentDefinition
     = Some [''.org.matrix.msc3930.rule.poll_start_one_to_one'',
             ''.org.matrix.msc3930.rule.poll_end_one_to_one'']
   \<and> resolvableSiblings exDefaultRules
        [''.org.matrix.msc3930.rule.poll_start_one_to_one'',
         ''.org.matrix.msc3930.rule.poll_end_one_to_one''] = [exSiblingRule]
   \<and> maximumVectorState exDefaultRules exParentRule exParentDefinition = Some On"
proof -
  have ids: "syncedRuleIds exParentDefinition
     = Some [''.org.matrix.msc3930.rule.poll_start_one_to_one'',
             ''.org.matrix.msc3930.rule.poll_end_one_to_one'']"
    by (simp add: exParentDefinition_def)
  have sibs: "resolvableSiblings exDefaultRules
        [''.org.matrix.msc3930.rule.poll_start_one_to_one'',
         ''.org.matrix.msc3930.rule.poll_end_one_to_one''] = [exSiblingRule]"
    by (simp add: resolvableSiblings_def List.map_filter_simps findInDefaultRules_def
          ruleClasses_def exDefaultRules_def exSiblingRule_def exParentRule_def mkRule_def)
  have "maximumVectorState exDefaultRules exParentRule exParentDefinition = Some On"
    using maximumVectorState_reads_siblings_through_parent_definition
            [OF ids, of exDefaultRules exParentRule]
    by (simp add: sibs loudestOf_def exParentDefinition_def exSiblingRule_def
          exParentRule_def mkRule_def)
  with ids sibs show ?thesis by simp
qed

text \<open>
  C1 (as stated) fails: with a parent definition that reads an enabled rule as On and a
  sibling whose own definition reads it as Loud, the code shows On where the
  specification's fold, using the sibling's own definition, gives Loud.
\<close>

theorem maximumVectorState_sibling_own_definition_counterexample:
  "findInDefaultRules ''.org.matrix.msc3930.rule.poll_start_one_to_one'' exDefaultRules
     = Some exSiblingRule
   \<and> ruleToVectorState (exDefinitionOf (rule_id exSiblingRule)) exSiblingRule = Loud
   \<and> maximumVectorState exDefaultRules exParentRule exParentDefinition = Some On
   \<and> computeDisplayState_spec exDefinitionOf exDefaultRules exParentRule exParentDefinition = Loud"
  by (simp add: maximumVectorState_def computeDisplayState_spec_def maximumStep_def specStep_def
        findInDefaultRules_def ruleClasses_def exDefaultRules_def exSiblingRule_def
        exParentRule_def mkRule_def exParentDefinition_def exSiblingDefinition_def
        exDefinitionOf_def)

text \<open>
  C2 (as amended). For a rule with a defined synced group, the state
  \<^verbatim>\<open>maximumVectorState\<close> returns is at least the rule's own state and at least the state
  that the rule's own definition (the parent's, \<^verbatim>\<open>definition\<close>) gives to every sibling
  found in the rule table, in the order Off < On < Loud given by
  \<^verbatim>\<open>OrderedVectorStates\<close>. Ids that are not found contribute nothing: the result is the
  rule's own state or the state the parent's definition gives to a sibling that was found.
\<close>

theorem maximumVectorState_is_loudest:
  assumes "syncedRuleIds definition = Some ids" and "ids \<noteq> []"
  shows "\<exists>v. maximumVectorState defaultRules r definition = Some v
           \<and> indexOf OrderedVectorStates (ruleToVectorState definition r)
               \<le> indexOf OrderedVectorStates v
           \<and> (\<forall>rid \<in> set ids. \<forall>s. findInDefaultRules rid defaultRules = Some s \<longrightarrow>
                 indexOf OrderedVectorStates (ruleToVectorState definition s)
                   \<le> indexOf OrderedVectorStates v)
           \<and> (v = ruleToVectorState definition r
               \<or> (\<exists>rid \<in> set ids. \<exists>s. findInDefaultRules rid defaultRules = Some s
                     \<and> v = ruleToVectorState definition s))"
proof -
  let ?own = "ruleToVectorState definition r"
  let ?sibs = "resolvableSiblings defaultRules ids"
  let ?vs = "?own # map (ruleToVectorState definition) ?sibs"
  let ?v = "loudestOf ?vs"
  have res: "maximumVectorState defaultRules r definition = Some ?v"
    using assms by (simp add: maximumVectorState_def foldl_maximumStep)
  have own: "indexOf OrderedVectorStates ?own \<le> indexOf OrderedVectorStates ?v"
    by (rule loudestOf_upper) simp
  have sib: "indexOf OrderedVectorStates (ruleToVectorState definition s)
               \<le> indexOf OrderedVectorStates ?v"
    if "rid \<in> set ids" "findInDefaultRules rid defaultRules = Some s" for rid s
  proof (rule loudestOf_upper)
    from that have "s \<in> set ?sibs" by (auto simp: set_resolvableSiblings)
    then show "ruleToVectorState definition s \<in> set ?vs" by simp
  qed
  have "?v \<in> set ?vs" by (rule loudestOf_attained)
  then have att: "?v = ?own
      \<or> (\<exists>rid \<in> set ids. \<exists>s. findInDefaultRules rid defaultRules = Some s
            \<and> ?v = ruleToVectorState definition s)"
    by (auto simp: set_resolvableSiblings)
  from res own sib att show ?thesis by blast
qed

theorem maximumVectorState_is_loudest_witness:
  "syncedRuleIds exParentDefinition
     = Some [''.org.matrix.msc3930.rule.poll_start_one_to_one'',
             ''.org.matrix.msc3930.rule.poll_end_one_to_one'']
   \<and> findInDefaultRules ''.org.matrix.msc3930.rule.poll_end_one_to_one'' exDefaultRules = None
   \<and> ruleToVectorState exParentDefinition exParentRule = Off
   \<and> ruleToVectorState exParentDefinition exSiblingRule = On
   \<and> maximumVectorState exDefaultRules exParentRule exParentDefinition = Some On"
proof -
  have ids: "syncedRuleIds exParentDefinition
     = Some [''.org.matrix.msc3930.rule.poll_start_one_to_one'',
             ''.org.matrix.msc3930.rule.poll_end_one_to_one'']"
    by (simp add: exParentDefinition_def)
  have f1: "findInDefaultRules ''.org.matrix.msc3930.rule.poll_start_one_to_one'' exDefaultRules
              = Some exSiblingRule"
    by (simp add: findInDefaultRules_def ruleClasses_def exDefaultRules_def exSiblingRule_def
          exParentRule_def mkRule_def)
  have f2: "findInDefaultRules ''.org.matrix.msc3930.rule.poll_end_one_to_one'' exDefaultRules
              = None"
    by (simp add: findInDefaultRules_def ruleClasses_def exDefaultRules_def exSiblingRule_def
          exParentRule_def mkRule_def)
  have own: "ruleToVectorState exParentDefinition exParentRule = Off"
    by (simp add: exParentDefinition_def exParentRule_def mkRule_def)
  have sib: "ruleToVectorState exParentDefinition exSiblingRule = On"
    by (simp add: exParentDefinition_def exSiblingRule_def mkRule_def)
  from maximumVectorState_is_loudest [OF ids, of exDefaultRules exParentRule]
  obtain v where v: "maximumVectorState exDefaultRules exParentRule exParentDefinition = Some v"
    and up: "\<forall>rid \<in> set [''.org.matrix.msc3930.rule.poll_start_one_to_one'',
                          ''.org.matrix.msc3930.rule.poll_end_one_to_one''].
               \<forall>s. findInDefaultRules rid exDefaultRules = Some s \<longrightarrow>
                 indexOf OrderedVectorStates (ruleToVectorState exParentDefinition s)
                   \<le> indexOf OrderedVectorStates v"
    and att: "v = ruleToVectorState exParentDefinition exParentRule
               \<or> (\<exists>rid \<in> set [''.org.matrix.msc3930.rule.poll_start_one_to_one'',
                                 ''.org.matrix.msc3930.rule.poll_end_one_to_one''].
                    \<exists>s. findInDefaultRules rid exDefaultRules = Some s
                       \<and> v = ruleToVectorState exParentDefinition s)"
    by auto
  from up f1 sib have "1 \<le> indexOf OrderedVectorStates v" by auto
  moreover from att own sib f1 f2 have "v = Off \<or> v = On" by auto
  ultimately have "v = On" by auto
  with v ids f2 own sib show ?thesis by simp
qed

text \<open>
  C2 (as stated) fails when a sibling's state is the one its own definition gives: on the
  concrete rule table the sibling is found and is Loud by its own definition, while the
  state returned is On, which is below Loud.
\<close>

theorem maximumVectorState_below_sibling_own_state_counterexample:
  "syncedRuleIds exParentDefinition
     = Some [''.org.matrix.msc3930.rule.poll_start_one_to_one'',
             ''.org.matrix.msc3930.rule.poll_end_one_to_one'']
   \<and> findInDefaultRules ''.org.matrix.msc3930.rule.poll_start_one_to_one'' exDefaultRules
       = Some exSiblingRule
   \<and> maximumVectorState exDefaultRules exParentRule exParentDefinition = Some On
   \<and> \<not> indexOf OrderedVectorStates
           (ruleToVectorState (exDefinitionOf (rule_id exSiblingRule)) exSiblingRule)
         \<le> indexOf OrderedVectorStates On"
  by (simp add: maximumVectorState_def maximumStep_def
        findInDefaultRules_def ruleClasses_def exDefaultRules_def exSiblingRule_def
        exParentRule_def mkRule_def exParentDefinition_def exSiblingDefinition_def
        exDefinitionOf_def)

section \<open>Sequential calls stop at the first rejection\<close>

lemma rejects_remoteCall [simp]: "rejects (snd (remoteCall c srv)) = rejects srv"
  by (simp add: remoteCall_def Let_def)

lemma callLog_remoteCall [simp]: "callLog (snd (remoteCall c srv)) = callLog srv @ [c]"
  by (simp add: remoteCall_def Let_def)

lemma issue_Nil [simp]: "issue [] srv = (Inr (), srv)"
  by (simp add: issue_def)

lemma issue_Cons:
  "issue (c # cs) srv =
     (if rejects srv (length (callLog srv)) then (Inl (RemoteRejected c), srv\<lparr>callLog := callLog srv @ [c]\<rparr>)
      else issue cs (srv\<lparr>callLog := callLog srv @ [c], global := commit c (global srv)\<rparr>))"
  by (simp add: issue_def remoteCall_def Let_def)

lemma issue_all_accepted:
  "\<forall>i < length cs. \<not> rejects srv (length (callLog srv) + i) \<Longrightarrow>
   issue cs srv = (Inr (), srv\<lparr>callLog := callLog srv @ cs, global := commitAll cs (global srv)\<rparr>)"
proof (induction cs arbitrary: srv)
  case Nil
  show ?case by (simp add: commitAll_def)
next
  case (Cons c cs)
  let ?srv' = "srv\<lparr>callLog := callLog srv @ [c], global := commit c (global srv)\<rparr>"
  from Cons.prems have first: "\<not> rejects srv (length (callLog srv))" by force
  have rest: "\<forall>i < length cs. \<not> rejects ?srv' (length (callLog ?srv') + i)"
  proof (intro allI impI)
    fix i assume "i < length cs"
    then have "Suc i < length (c # cs)" by simp
    with Cons.prems have "\<not> rejects srv (length (callLog srv) + Suc i)" by blast
    then show "\<not> rejects ?srv' (length (callLog ?srv') + i)" by simp
  qed
  show ?case
    using first Cons.IH [OF rest] by (simp add: issue_Cons commitAll_def)
qed

lemma issue_append:
  "issue (as @ bs) srv =
     (case issue as srv of (Inl e, srv') \<Rightarrow> (Inl e, srv') | (Inr u, srv') \<Rightarrow> issue bs srv')"
  by (induction as arbitrary: srv) (simp_all add: issue_Cons)

lemma issue_first_rejection:
  assumes "j < length cs"
      and "rejects srv (length (callLog srv) + j)"
      and "\<forall>i < j. \<not> rejects srv (length (callLog srv) + i)"
  shows "issue cs srv =
           (Inl (RemoteRejected (cs ! j)),
            srv\<lparr>callLog := callLog srv @ take (Suc j) cs, global := commitAll (take j cs) (global srv)\<rparr>)"
proof -
  have split: "cs = take j cs @ (cs ! j) # drop (Suc j) cs"
    using assms(1) by (simp add: id_take_nth_drop)
  have acc: "\<forall>i < length (take j cs). \<not> rejects srv (length (callLog srv) + i)"
    using assms(3) by simp
  have "issue cs srv = issue (take j cs @ (cs ! j) # drop (Suc j) cs) srv"
    using split by simp
  also have "\<dots> = (Inl (RemoteRejected (cs ! j)),
            srv\<lparr>callLog := callLog srv @ take (Suc j) cs, global := commitAll (take j cs) (global srv)\<rparr>)"
    using assms(1,2) 
    by (simp add: issue_append issue_all_accepted [OF acc] issue_Cons take_Suc_conv_app_nth min_def)
  finally show ?thesis .
qed


lemma andThen_issue:
  "andThen (issue as) (\<lambda>u. issue bs) srv = issue (as @ bs) srv"
  by (simp add: andThen_def issue_append split: prod.splits sum.splits)

lemma setPushRuleActions_issue:
  "setPushRuleActions rid k acts srv = issue (ruleCalls k rid acts) srv"
proof (cases acts)
  case None
  then show ?thesis
    by (simp add: setPushRuleActions_def ruleCalls_def issue_def split: prod.splits sum.splits)
next
  case (Some as)
  have "andThen (remoteCall (SetPushRuleActions k rid as)) (\<lambda>u. remoteCall (SetPushRuleEnabled k rid True)) srv
        = issue [SetPushRuleActions k rid as, SetPushRuleEnabled k rid True] srv"
    by (simp add: andThen_def issue_def split: prod.splits sum.splits)
  with Some show ?thesis by (simp add: setPushRuleActions_def ruleCalls_def)
qed

lemma forEach_issue:
  "forEach (\<lambda>x. issue (f x)) xs srv = issue (concat (map f xs)) srv"
  by (induction xs arbitrary: srv) (simp_all add: issue_append split: prod.splits sum.splits)

lemma forEach_cong:
  "(\<And>x srv. x \<in> set xs \<Longrightarrow> body x srv = body' x srv) \<Longrightarrow> forEach body xs srv = forEach body' xs srv"
  by (induction xs arbitrary: srv) (simp_all split: prod.splits sum.splits)

lemma updateSyncedRules_issue:
  "updateSyncedRules im ids acts srv =
   issue (concat (map (\<lambda>(k, s). ruleCalls k (rule_id s) acts) (existingSyncedRules im ids))) srv"
proof (cases ids)
  case None
  then show ?thesis
    by (simp add: updateSyncedRules_def existingSyncedRules_def resolved_def List.map_filter_simps)
next
  case (Some ruleIds)
  let ?synced = "List.map_filter (getPushRuleAndKindById im) ruleIds"
  have loop: "forEach (\<lambda>(k, syncedRule). setPushRuleActions (rule_id syncedRule) k acts) ?synced srv
        = issue (concat (map (\<lambda>(k, s). ruleCalls k (rule_id s) acts) ?synced)) srv"
  proof -
    have "forEach (\<lambda>(k, syncedRule). setPushRuleActions (rule_id syncedRule) k acts) ?synced srv
          = forEach (\<lambda>x. issue ((\<lambda>(k, s). ruleCalls k (rule_id s) acts) x)) ?synced srv"
      by (rule forEach_cong) (simp add: setPushRuleActions_issue split: prod.splits)
    then show ?thesis by (simp add: forEach_issue)
  qed
  show ?thesis
  proof (cases "?synced = []")
    case True
    with Some show ?thesis
      by (simp add: updateSyncedRules_def existingSyncedRules_def resolved_def)
  next
    case False
    with Some loop show ?thesis
      by (simp add: updateSyncedRules_def existingSyncedRules_def Let_def)
  qed
qed

lemma keywordMutation_issue:
  "keywordMutation im info checkedState r srv = issue (keywordCalls im info checkedState r) srv"
  by (cases checkedState)
     (simp_all add: keywordMutation_def keywordCalls_def andThen_def resolved_def issue_def
        split: prod.splits sum.splits)

lemma radioMutations_rule:
  assumes "ruleId row \<noteq> KEYWORD_RULE_ID"
      and "VectorPushRulesDefinitions im (ruleId row) = Some definition"
      and "rule row = Some r"
  shows "radioMutations im st row checkedState srv =
         issue (ruleCalls (kind r) (rule_id r) (vectorStateToActions definition checkedState)
                @ concat (map (\<lambda>(k, s). ruleCalls k (rule_id s) (vectorStateToActions definition checkedState))
                              (existingSyncedRules im (syncedRuleIds definition)))) srv"
proof -
  let ?acts = "vectorStateToActions definition checkedState"
  have "andThen (setPushRuleActions (rule_id r) (kind r) ?acts)
                (\<lambda>u. updateSyncedRules im (syncedRuleIds definition) ?acts) srv
        = andThen (issue (ruleCalls (kind r) (rule_id r) ?acts))
                (\<lambda>u. issue (concat (map (\<lambda>(k, s). ruleCalls k (rule_id s) ?acts)
                              (existingSyncedRules im (syncedRuleIds definition))))) srv"
    by (simp add: andThen_def setPushRuleActions_issue updateSyncedRules_issue
          split: prod.splits sum.splits)
  with assms show ?thesis
    by (simp add: radioMutations_def Let_def andThen_issue)
qed

lemma radioMutations_keywords:
  assumes "ruleId row = KEYWORD_RULE_ID"
      and "vectorKeywordRuleInfo st = Some info"
  shows "radioMutations im st row checkedState srv =
         issue (concat (map (keywordCalls im info checkedState) (rules info))) srv"
proof -
  have "forEach (keywordMutation im info checkedState) (rules info) srv
        = forEach (\<lambda>x. issue (keywordCalls im info checkedState x)) (rules info) srv"
    by (rule forEach_cong) (simp add: keywordMutation_issue)
  with assms show ?thesis
    by (simp add: radioMutations_def forEach_issue)
qed

lemma refreshFromServer_client:
  "callLog (client (refreshFromServer im w)) = callLog (client w) @ refreshCalls
   \<and> global (client (refreshFromServer im w)) = global (client w)
   \<and> rejects (client (refreshFromServer im w)) = rejects (client w)
   \<and> saveErrorsShown (refreshFromServer im w) = saveErrorsShown w"
  by (simp add: refreshFromServer_def remoteCall_def refreshCalls_def Let_def
        split: prod.splits sum.splits)


lemma onRadioChecked_accepted:
  assumes "radioMutations im ((state w)\<lparr>phase := Persisting\<rparr>) row checkedState (client w)
             = issue planned (client w)"
      and "\<forall>i < length planned. \<not> rejects (client w) (length (callLog (client w)) + i)"
  shows "callLog (client (onRadioChecked im row checkedState w))
           = callLog (client w) @ planned @ refreshCalls
         \<and> global (client (onRadioChecked im row checkedState w))
             = commitAll planned (global (client w))
         \<and> saveErrorsShown (onRadioChecked im row checkedState w) = saveErrorsShown w"
  using assms(1) issue_all_accepted [OF assms(2)]
  by (simp add: onRadioChecked_def Let_def refreshFromServer_client)

lemma onRadioChecked_rejected:
  assumes "radioMutations im ((state w)\<lparr>phase := Persisting\<rparr>) row checkedState (client w)
             = issue planned (client w)"
      and "j < length planned"
      and "rejects (client w) (length (callLog (client w)) + j)"
      and "\<forall>i < j. \<not> rejects (client w) (length (callLog (client w)) + i)"
  shows "callLog (client (onRadioChecked im row checkedState w))
           = callLog (client w) @ take (Suc j) planned
         \<and> global (client (onRadioChecked im row checkedState w))
             = commitAll (take j planned) (global (client w))
         \<and> phase (state (onRadioChecked im row checkedState w)) = Error
         \<and> saveErrorsShown (onRadioChecked im row checkedState w) = saveErrorsShown w + 1"
  using assms(1) issue_first_rejection [OF assms(2,3,4)]
  by (simp add: onRadioChecked_def Let_def)

text \<open>
  C3. Choosing a state for a rule with synced siblings sends the rule's own calls and then,
  for every synced sibling that exists for the user, in list order, the same calls
  (set the actions, then enable; or the single disable call when the state has no
  actions). If every call is accepted all of them are issued and committed, followed by
  the refresh. If call \<open>j\<close> is the first to be rejected, exactly the calls up to and
  including it have been issued, the calls before it stay committed, nothing is sent
  afterwards (no later sibling, no rollback, no refresh), and the component is in phase
  Error with the save-error dialog shown.
\<close>

theorem onRadioChecked_syncs_siblings_until_first_failure:
  assumes "ruleId row \<noteq> KEYWORD_RULE_ID"
      and "VectorPushRulesDefinitions im (ruleId row) = Some definition"
      and "rule row = Some r"
      and "acts = vectorStateToActions definition checkedState"
      and "planned = ruleCalls (kind r) (rule_id r) acts
                     @ concat (map (\<lambda>(k, s). ruleCalls k (rule_id s) acts)
                                   (existingSyncedRules im (syncedRuleIds definition)))"
      and "w' = onRadioChecked im row checkedState w"
      and "n = length (callLog (client w))"
  shows "((\<forall>i < length planned. \<not> rejects (client w) (n + i)) \<longrightarrow>
            callLog (client w') = callLog (client w) @ planned @ refreshCalls
          \<and> global (client w') = commitAll planned (global (client w))
          \<and> saveErrorsShown w' = saveErrorsShown w)
       \<and> (\<forall>j < length planned.
            rejects (client w) (n + j) \<and> (\<forall>i < j. \<not> rejects (client w) (n + i)) \<longrightarrow>
              callLog (client w') = callLog (client w) @ take (Suc j) planned
            \<and> global (client w') = commitAll (take j planned) (global (client w))
            \<and> phase (state w') = Error
            \<and> saveErrorsShown w' = saveErrorsShown w + 1)"
proof -
  have run: "radioMutations im ((state w)\<lparr>phase := Persisting\<rparr>) row checkedState (client w)
               = issue planned (client w)"
    using radioMutations_rule [OF assms(1,2,3)] assms(4,5) by simp
  show ?thesis
    unfolding assms(6,7)
    using onRadioChecked_accepted [OF run] onRadioChecked_rejected [OF run]
    by blast
qed

text \<open>
  C6. Choosing a state for the keywords sends the calls of the keyword rules one after
  the other. If call \<open>j\<close> of the batch is the first to be rejected (the second call,
  \<open>j = 1\<close>, in particular), the calls after it are never issued, the calls before it
  stay committed, and the error is surfaced: phase Error and the save-error dialog.
\<close>

theorem onRadioChecked_keywords_halt_on_first_failure:
  assumes "ruleId row = KEYWORD_RULE_ID"
      and "vectorKeywordRuleInfo (state w) = Some info"
      and "planned = concat (map (keywordCalls im info checkedState) (rules info))"
      and "w' = onRadioChecked im row checkedState w"
      and "n = length (callLog (client w))"
  shows "((\<forall>i < length planned. \<not> rejects (client w) (n + i)) \<longrightarrow>
            callLog (client w') = callLog (client w) @ planned @ refreshCalls
          \<and> global (client w') = commitAll planned (global (client w))
          \<and> saveErrorsShown w' = saveErrorsShown w)
       \<and> (\<forall>j < length planned.
            rejects (client w) (n + j) \<and> (\<forall>i < j. \<not> rejects (client w) (n + i)) \<longrightarrow>
              callLog (client w') = callLog (client w) @ take (Suc j) planned
            \<and> global (client w') = commitAll (take j planned) (global (client w))
            \<and> phase (state w') = Error
            \<and> saveErrorsShown w' = saveErrorsShown w + 1)"
proof -
  have "vectorKeywordRuleInfo ((state w)\<lparr>phase := Persisting\<rparr>) = Some info"
    using assms(2) by simp
  from radioMutations_keywords [OF assms(1) this]
  have run: "radioMutations im ((state w)\<lparr>phase := Persisting\<rparr>) row checkedState (client w)
               = issue planned (client w)"
    using assms(3) by simp
  show ?thesis
    unfolding assms(4,5)
    using onRadioChecked_accepted [OF run] onRadioChecked_rejected [OF run]
    by blast
qed

section \<open>Evaluating the concrete account\<close>

lemmas ex_defs = exWorld_def exState_def exServer_def exRuleSets_def
  exImports_def exKeywordInfo_def exKeywordRule_def plain_def exMasterRule_def exPollEndRule_def
  exParentDefinition_def exSiblingRule_def exParentRule_def mkRule_def

text \<open>
  C3 at a concrete account: a one-to-one rule with two synced poll rules. With every call
  accepted all six calls and the refresh are sent; with the fourth call rejected only the
  first four are sent and the parent rule stays changed.
\<close>

theorem onRadioChecked_syncs_siblings_until_first_failure_witness:
  "callLog (client (onRadioChecked exImports exParentRow On (exWorld (\<lambda>n. False))))
     = exPlanned @ refreshCalls
   \<and> callLog (client (onRadioChecked exImports exParentRow On (exWorld (\<lambda>n. n = 3))))
     = take 4 exPlanned
   \<and> storedRule (global (client (onRadioChecked exImports exParentRow On (exWorld (\<lambda>n. n = 3)))))
        Underride ''.m.rule.room_one_to_one''
     = Some \<lparr>rule_id = ''.m.rule.room_one_to_one'', enabled = True, actions = [Notify],
              pattern = None\<rparr>
   \<and> phase (state (onRadioChecked exImports exParentRow On (exWorld (\<lambda>n. n = 3)))) = Error
   \<and> saveErrorsShown (onRadioChecked exImports exParentRow On (exWorld (\<lambda>n. n = 3))) = 1"
proof -
  have h1: "ruleId exParentRow \<noteq> KEYWORD_RULE_ID"
    by (simp add: exParentRow_def KEYWORD_RULE_ID_def)
  have h2: "VectorPushRulesDefinitions exImports (ruleId exParentRow) = Some exParentDefinition"
    by (simp add: exParentRow_def exImports_def)
  have h3: "rule exParentRow = Some exParentRule"
    by (simp add: exParentRow_def)
  have h5: "exPlanned = ruleCalls (kind exParentRule) (rule_id exParentRule)
                          (vectorStateToActions exParentDefinition On)
                     @ concat (map (\<lambda>(k, s). ruleCalls k (rule_id s)
                                       (vectorStateToActions exParentDefinition On))
                                   (existingSyncedRules exImports (syncedRuleIds exParentDefinition)))"
    by (simp add: exPlanned_def ex_defs ruleCalls_def existingSyncedRules_def
          List.map_filter_simps)
  have len: "length exPlanned = 6" by (simp add: exPlanned_def)
  have ok: "callLog (client (onRadioChecked exImports exParentRow On (exWorld (\<lambda>n. False))))
              = exPlanned @ refreshCalls"
    using onRadioChecked_syncs_siblings_until_first_failure
            [OF h1 h2 h3 refl h5 refl refl, of "exWorld (\<lambda>n. False)"]
    by (simp add: exWorld_def exServer_def)
  have "3 < length exPlanned" by (simp add: len)
  with onRadioChecked_syncs_siblings_until_first_failure
         [OF h1 h2 h3 refl h5 refl refl, of "exWorld (\<lambda>n. n = 3)"]
  have bad: "callLog (client (onRadioChecked exImports exParentRow On (exWorld (\<lambda>n. n = 3))))
               = callLog (client (exWorld (\<lambda>n. n = 3))) @ take (Suc 3) exPlanned
             \<and> global (client (onRadioChecked exImports exParentRow On (exWorld (\<lambda>n. n = 3))))
               = commitAll (take 3 exPlanned) (global (client (exWorld (\<lambda>n. n = 3))))
             \<and> phase (state (onRadioChecked exImports exParentRow On (exWorld (\<lambda>n. n = 3)))) = Error
             \<and> saveErrorsShown (onRadioChecked exImports exParentRow On (exWorld (\<lambda>n. n = 3)))
               = saveErrorsShown (exWorld (\<lambda>n. n = 3)) + 1"
    by (simp add: exWorld_def exServer_def)
  have stored: "storedRule (commitAll (take 3 exPlanned) exRuleSets) Underride ''.m.rule.room_one_to_one''
     = Some \<lparr>rule_id = ''.m.rule.room_one_to_one'', enabled = True, actions = [Notify],
              pattern = None\<rparr>"
    by (simp add: exPlanned_def ex_defs commitAll_def updateRule_def storedRule_def)
  from ok bad stored show ?thesis
    by (simp add: exWorld_def exServer_def)
qed

text \<open>
  C6 at the concrete account: three keyword rules are switched off and the second call is
  rejected. The third call is never issued, the first rule stays disabled, the third
  stays enabled, and the error is surfaced.
\<close>

theorem onRadioChecked_keywords_halt_on_first_failure_witness:
  "callLog (client (onRadioChecked exImports exKeywordsRow Off (exWorld (\<lambda>n. n = 1))))
     = [SetPushRuleEnabled ContentSpecific ''alpha'' False,
        SetPushRuleEnabled ContentSpecific ''beta'' False]
   \<and> map (\<lambda>word. map_option enabled
                     (storedRule (global (client (onRadioChecked exImports exKeywordsRow Off
                                                    (exWorld (\<lambda>n. n = 1)))))
                                 ContentSpecific word))
         [''alpha'', ''beta'', ''gamma'']
     = [Some False, Some True, Some True]
   \<and> phase (state (onRadioChecked exImports exKeywordsRow Off (exWorld (\<lambda>n. n = 1)))) = Error
   \<and> saveErrorsShown (onRadioChecked exImports exKeywordsRow Off (exWorld (\<lambda>n. n = 1))) = 1"
proof -
  let ?planned = "[SetPushRuleEnabled ContentSpecific ''alpha'' False,
                   SetPushRuleEnabled ContentSpecific ''beta'' False,
                   SetPushRuleEnabled ContentSpecific ''gamma'' False]"
  have h1: "ruleId exKeywordsRow = KEYWORD_RULE_ID"
    by (simp add: exKeywordsRow_def keywordRow_def)
  have h2: "vectorKeywordRuleInfo (state (exWorld (\<lambda>n. n = 1))) = Some exKeywordInfo"
    by (simp add: exWorld_def exState_def)
  have h3: "?planned = concat (map (keywordCalls exImports exKeywordInfo Off) (rules exKeywordInfo))"
    by (simp add: keywordCalls_def exKeywordInfo_def exKeywordRule_def)
  have "(1::nat) < length ?planned" by simp
  with onRadioChecked_keywords_halt_on_first_failure [OF h1 h2 h3 refl refl]
  have bad: "callLog (client (onRadioChecked exImports exKeywordsRow Off (exWorld (\<lambda>n. n = 1))))
               = callLog (client (exWorld (\<lambda>n. n = 1))) @ take (Suc 1) ?planned
             \<and> global (client (onRadioChecked exImports exKeywordsRow Off (exWorld (\<lambda>n. n = 1))))
               = commitAll (take 1 ?planned) (global (client (exWorld (\<lambda>n. n = 1))))
             \<and> phase (state (onRadioChecked exImports exKeywordsRow Off (exWorld (\<lambda>n. n = 1)))) = Error
             \<and> saveErrorsShown (onRadioChecked exImports exKeywordsRow Off (exWorld (\<lambda>n. n = 1)))
               = saveErrorsShown (exWorld (\<lambda>n. n = 1)) + 1"
    by (simp add: exWorld_def exServer_def)
  have stored: "map (\<lambda>word. map_option enabled
                       (storedRule (commitAll (take 1 ?planned) exRuleSets) ContentSpecific word))
                    [''alpha'', ''beta'', ''gamma'']
                  = [Some False, Some True, Some True]"
    by (simp add: ex_defs commitAll_def updateRule_def storedRule_def)
  from bad stored show ?thesis
    by (simp add: exWorld_def exServer_def)
qed

section \<open>The calls sent when the keywords are set to On or Loud\<close>

text \<open>
  C5. When the keywords are set to On (resp. Loud) and the service accepts every call,
  the handler sends, for each keyword rule in turn, a call rewriting its actions exactly
  when the rule does not have exactly 1 (resp. 3) actions, and a call enabling it exactly
  when the aggregate state was Off; then it refreshes.
\<close>

theorem onRadioChecked_keywords_rewrite_and_enable:
  assumes "ruleId row = KEYWORD_RULE_ID"
      and "vectorKeywordRuleInfo (state w) = Some info"
      and "checkedState = On \<and> expected = 1 \<or> checkedState = Loud \<and> expected = 3"
      and "\<forall>n. \<not> rejects (client w) n"
  shows "callLog (client (onRadioChecked im row checkedState w))
         = callLog (client w)
           @ concat (map (\<lambda>r. (if length (actions r) \<noteq> expected
                                then [SetPushRuleActions (kind r) (rule_id r)
                                        (actionsFor im (Some checkedState))]
                                else [])
                               @ (if vectorState info = Off
                                  then [SetPushRuleEnabled (kind r) (rule_id r) True]
                                  else []))
                         (rules info))
           @ refreshCalls"
proof -
  let ?planned = "concat (map (keywordCalls im info checkedState) (rules info))"
  have "vectorKeywordRuleInfo ((state w)\<lparr>phase := Persisting\<rparr>) = Some info"
    using assms(2) by simp
  from radioMutations_keywords [OF assms(1) this]
  have run: "radioMutations im ((state w)\<lparr>phase := Persisting\<rparr>) row checkedState (client w)
               = issue ?planned (client w)" .
  have acc: "\<forall>i < length ?planned. \<not> rejects (client w) (length (callLog (client w)) + i)"
    using assms(4) by simp
  have calls: "keywordCalls im info checkedState
        = (\<lambda>r. (if length (actions r) \<noteq> expected
                then [SetPushRuleActions (kind r) (rule_id r) (actionsFor im (Some checkedState))]
                else [])
               @ (if vectorState info = Off
                  then [SetPushRuleEnabled (kind r) (rule_id r) True] else []))"
    using assms(3) by (auto simp: keywordCalls_def fun_eq_iff)
  from onRadioChecked_accepted [OF run acc]
  show ?thesis by (simp add: calls)
qed

theorem onRadioChecked_keywords_rewrite_and_enable_witness:
  "callLog (client (onRadioChecked exImports exKeywordsRow Loud (exWorld (\<lambda>n. False))))
     = [SetPushRuleActions ContentSpecific ''alpha''
          [Notify, SetTweakHighlight True, SetTweakSound ''default''],
        SetPushRuleActions ContentSpecific ''beta''
          [Notify, SetTweakHighlight True, SetTweakSound ''default''],
        SetPushRuleActions ContentSpecific ''gamma''
          [Notify, SetTweakHighlight True, SetTweakSound ''default''],
        GetPushRules, GetPushers, GetThreePids]
   \<and> callLog (client (onRadioChecked exImports exKeywordsRow On (exWorld (\<lambda>n. False))))
     = [GetPushRules, GetPushers, GetThreePids]"
proof -
  have h1: "ruleId exKeywordsRow = KEYWORD_RULE_ID"
    by (simp add: exKeywordsRow_def keywordRow_def)
  have h2: "vectorKeywordRuleInfo (state (exWorld (\<lambda>n. False))) = Some exKeywordInfo"
    by (simp add: exWorld_def exState_def)
  have h4: "\<forall>n. \<not> rejects (client (exWorld (\<lambda>n. False))) n"
    by (simp add: exWorld_def exServer_def)
  have loud: "Loud = On \<and> (3::nat) = 1 \<or> Loud = Loud \<and> (3::nat) = 3" by simp
  have on: "On = On \<and> (1::nat) = 1 \<or> On = Loud \<and> (1::nat) = 3" by simp
  from onRadioChecked_keywords_rewrite_and_enable [OF h1 h2 loud h4, where im = exImports]
       onRadioChecked_keywords_rewrite_and_enable [OF h1 h2 on h4, where im = exImports]
  show ?thesis
    by (simp add: exWorld_def exServer_def exKeywordInfo_def exKeywordRule_def exImports_def
          refreshCalls_def)
qed

section \<open>Disabling a rule\<close>

lemma map_of_update_kind:
  "map_of (map (\<lambda>(k', rs). if k' = k then (k', g rs) else (k', rs)) ruleSets) k'' =
     (if k'' = k then map_option g (map_of ruleSets k) else map_of ruleSets k'')"
  by (induction ruleSets) auto

lemma find_update_rule:
  assumes "\<And>r. rule_id (f r) = rule_id r"
  shows "find (\<lambda>r. rule_id r = rid') (map (\<lambda>r. if rule_id r = rid then f r else r) rs) =
           (if rid' = rid then map_option f (find (\<lambda>r. rule_id r = rid) rs)
            else find (\<lambda>r. rule_id r = rid') rs)"
  using assms by (induction rs) auto

lemma storedRule_updateRule:
  assumes "\<And>r. rule_id (f r) = rule_id r"
  shows "storedRule (updateRule k rid f ruleSets) k' rid' =
           (if k' = k \<and> rid' = rid then map_option f (storedRule ruleSets k rid)
            else storedRule ruleSets k' rid')"
  by (cases "map_of ruleSets k")
     (auto simp: storedRule_def updateRule_def map_of_update_kind find_update_rule [OF assms]
           split: option.splits)

text \<open>
  Called without actions, \<^verbatim>\<open>setPushRuleActions\<close> issues the disable call alone; when the
  service accepts it only the named rule changes, and only in its \<open>enabled\<close> flag.
\<close>

lemma setPushRuleActions_None_disables:
  "callLog (snd (setPushRuleActions rid k None srv))
     = callLog srv @ [SetPushRuleEnabled k rid False]
   \<and> (\<not> rejects srv (length (callLog srv)) \<longrightarrow>
        fst (setPushRuleActions rid k None srv) = Inr ()
      \<and> (\<forall>r. storedRule (global srv) k rid = Some r \<longrightarrow>
             storedRule (global (snd (setPushRuleActions rid k None srv))) k rid
               = Some (r\<lparr>enabled := False\<rparr>))
      \<and> (\<forall>k' rid'. (k', rid') \<noteq> (k, rid) \<longrightarrow>
             storedRule (global (snd (setPushRuleActions rid k None srv))) k' rid'
               = storedRule (global srv) k' rid'))"
proof -
  have keep: "rule_id (r\<lparr>enabled := False\<rparr>) = rule_id r" for r :: IPushRule
    by simp
  show ?thesis
    by (auto simp: setPushRuleActions_def remoteCall_def Let_def
                   storedRule_updateRule [where f = "\<lambda>r. r\<lparr>enabled := False\<rparr>", OF keep])
qed














section \<open>The keyword diff\<close>

lemma set_setInsertAll: "set (setInsertAll seen xs) = set seen \<union> set xs"
  by (induction xs arbitrary: seen) auto

lemma distinct_setInsertAll: "distinct seen \<Longrightarrow> distinct (setInsertAll seen xs)"
  by (induction xs arbitrary: seen) auto

lemma set_map_filter_words:
  "set (List.map_filter (\<lambda>k. case k of None \<Rightarrow> None
                               | Some word \<Rightarrow> if word = [] then None else Some word) ks)
     = {word. Some word \<in> set ks \<and> word \<noteq> []}"
  by (induction ks) (auto simp: List.map_filter_simps split: option.splits)

lemma distinct_map_filter_words:
  "distinct ks \<Longrightarrow>
   distinct (List.map_filter (\<lambda>k. case k of None \<Rightarrow> None
                                    | Some word \<Rightarrow> if word = [] then None else Some word) ks)"
  by (induction ks) (auto simp: List.map_filter_simps set_map_filter_words split: option.splits)

lemma set_dedupeNonEmpty:
  "set (dedupeNonEmpty ks) = {word. Some word \<in> set ks \<and> word \<noteq> []}"
  by (simp add: dedupeNonEmpty_def arrayFromSet_def set_map_filter_words set_setInsertAll)

lemma distinct_dedupeNonEmpty: "distinct (dedupeNonEmpty ks)"
  by (simp add: dedupeNonEmpty_def arrayFromSet_def distinct_map_filter_words
        distinct_setInsertAll)

text \<open>
  C7. \<^verbatim>\<open>diffKeywords\<close> is a set diff of the two word lists once duplicates,
  \<^verbatim>\<open>undefined\<close> and empty strings are dropped: the added words are the non-empty new words
  that are not old words, the removed words the non-empty old words that are not new
  words, each listed once. On the two inputs of the specification it gives
  added \<open>["c"]\<close>, removed \<open>["a"]\<close> and added \<open>[]\<close>, removed \<open>[]\<close>.
\<close>

theorem diffKeywords_is_set_diff:
  "set (added (diffKeywords oldWords newWords))
     = {word. Some word \<in> set newWords \<and> word \<noteq> []}
       - {word. Some word \<in> set oldWords \<and> word \<noteq> []}
   \<and> set (removed (diffKeywords oldWords newWords))
     = {word. Some word \<in> set oldWords \<and> word \<noteq> []}
       - {word. Some word \<in> set newWords \<and> word \<noteq> []}
   \<and> distinct (added (diffKeywords oldWords newWords))
   \<and> distinct (removed (diffKeywords oldWords newWords))
   \<and> diffKeywords [Some ''a'', Some ''b''] [Some ''b'', Some ''c'']
     = \<lparr>added = [''c''], removed = [''a'']\<rparr>
   \<and> diffKeywords [Some ''a'', Some ''a''] [Some ''a''] = \<lparr>added = [], removed = []\<rparr>"
proof -
  have general:
    "set (added (diffKeywords oldWords newWords))
       = {word. Some word \<in> set newWords \<and> word \<noteq> []}
         - {word. Some word \<in> set oldWords \<and> word \<noteq> []}"
    "set (removed (diffKeywords oldWords newWords))
       = {word. Some word \<in> set oldWords \<and> word \<noteq> []}
         - {word. Some word \<in> set newWords \<and> word \<noteq> []}"
    by (auto simp: diffKeywords_def arrayDiff_def set_dedupeNonEmpty)
  have once:
    "distinct (added (diffKeywords oldWords newWords))"
    "distinct (removed (diffKeywords oldWords newWords))"
    by (simp_all add: diffKeywords_def arrayDiff_def distinct_dedupeNonEmpty)
  have ex1: "diffKeywords [Some ''a'', Some ''b''] [Some ''b'', Some ''c'']
               = \<lparr>added = [''c''], removed = [''a'']\<rparr>"
    by (simp add: diffKeywords_def arrayDiff_def dedupeNonEmpty_def arrayFromSet_def
          List.map_filter_simps)
  have ex2: "diffKeywords [Some ''a'', Some ''a''] [Some ''a''] = \<lparr>added = [], removed = []\<rparr>"
    by (simp add: diffKeywords_def arrayDiff_def dedupeNonEmpty_def arrayFromSet_def
          List.map_filter_simps)
  from general once ex1 ex2 show ?thesis by simp
qed

section \<open>A missing master rule\<close>

lemma categories_Master: "categories rid = Some Master \<longleftrightarrow> rid = RuleId_Master"
  by (auto simp: categories_def RuleId_Master_def RuleId_DM_def RuleId_EncryptedDM_def
        RuleId_Message_def RuleId_EncryptedMessage_def RuleId_ContainsDisplayName_def
        RuleId_ContainsUserName_def RuleId_AtRoomNotification_def RuleId_InviteToSelf_def
        RuleId_IncomingCall_def RuleId_SuppressNotices_def RuleId_Tombstone_def
        split: if_splits)

lemma pushDefaultRule_no_master:
  "rule_id r \<noteq> RuleId_Master \<Longrightarrow> defaultRules Master = [] \<Longrightarrow>
   pushDefaultRule k defaultRules r Master = []"
  by (auto simp: pushDefaultRule_def Let_def annotate_def categories_Master
           split: option.splits)

lemma foldl_pushDefaultRule_no_master:
  "\<forall>r \<in> set rs. rule_id r \<noteq> RuleId_Master \<Longrightarrow> defaultRules Master = [] \<Longrightarrow>
   foldl (pushDefaultRule k) defaultRules rs Master = []"
  by (induction rs arbitrary: defaultRules) (simp_all add: pushDefaultRule_no_master)

lemma foldl_kinds_no_master:
  "\<forall>(k, rs) \<in> set ruleSets. \<forall>r \<in> set rs. rule_id r \<noteq> RuleId_Master \<Longrightarrow>
   defaultRules Master = [] \<Longrightarrow>
   foldl (\<lambda>defaultRules (k, rs). foldl (pushDefaultRule k) defaultRules rs) defaultRules ruleSets
     Master = []"
proof (induction ruleSets arbitrary: defaultRules)
  case Nil
  then show ?case by simp
next
  case (Cons entry ruleSets)
  obtain k rs where entry: "entry = (k, rs)" by (cases entry)
  from Cons.prems(1) entry have here: "\<forall>r \<in> set rs. rule_id r \<noteq> RuleId_Master"
    and rest: "\<forall>(k, rs) \<in> set ruleSets. \<forall>r \<in> set rs. rule_id r \<noteq> RuleId_Master"
    by auto
  have step: "foldl (pushDefaultRule k) defaultRules rs Master = []"
    using here Cons.prems(2) by (rule foldl_pushDefaultRule_no_master)
  from Cons.IH [of "foldl (pushDefaultRule k) defaultRules rs", OF rest step] entry
  show ?case by simp
qed

lemma collectDefaultRules_no_master:
  "\<forall>(k, rs) \<in> set ruleSets. \<forall>r \<in> set rs. rule_id r \<noteq> RuleId_Master \<Longrightarrow>
   collectDefaultRules ruleSets Master = []"
  unfolding collectDefaultRules_def by (rule foldl_kinds_no_master) simp_all

text \<open>
  C8. If no fetched rule is the master rule, \<^verbatim>\<open>refreshRules\<close> throws
  (\<open>MissingMasterRule\<close>) instead of preparing a state, and \<^verbatim>\<open>refreshFromServer\<close>, which
  catches it, leaves the component in phase Error, not Ready, with the rest of its state
  as it was.
\<close>

theorem refreshRules_without_master_rule_fails:
  assumes "\<forall>(k, rs) \<in> set (global (client w)). \<forall>r \<in> set rs. rule_id r \<noteq> RuleId_Master"
  shows "refreshRules im (global (client w)) = Inl MissingMasterRule
       \<and> state (refreshFromServer im w) = (state w)\<lparr>phase := Error\<rparr>
       \<and> phase (state (refreshFromServer im w)) \<noteq> Ready"
proof -
  have thrown: "refreshRules im (global (client w)) = Inl MissingMasterRule"
    using collectDefaultRules_no_master [OF assms] by (simp add: refreshRules_def Let_def)
  then have "state (refreshFromServer im w) = (state w)\<lparr>phase := Error\<rparr>"
    by (simp add: refreshFromServer_def remoteCall_def Let_def split: prod.splits sum.splits)
  with thrown show ?thesis by simp
qed


theorem refreshRules_without_master_rule_fails_witness:
  "global (client exNoMasterWorld) = [(Underride, [plain exParentRule])]
   \<and> refreshRules exImports (global (client exNoMasterWorld)) = Inl MissingMasterRule
   \<and> phase (state (refreshFromServer exImports exNoMasterWorld)) = Error"
proof -
  have stored: "global (client exNoMasterWorld) = [(Underride, [plain exParentRule])]"
    by (simp add: exNoMasterWorld_def)
  have none: "\<forall>(k, rs) \<in> set (global (client exNoMasterWorld)).
                \<forall>r \<in> set rs. rule_id r \<noteq> RuleId_Master"
    by (simp add: stored plain_def exParentRule_def mkRule_def RuleId_Master_def)
  from refreshRules_without_master_rule_fails [OF none, of exImports] stored
  show ?thesis by simp
qed

text \<open>With the master rule among the fetched rules the same refresh ends in phase Ready.\<close>

lemma refreshFromServer_with_master_rule_ready:
  "phase (state (refreshFromServer exImports (exWorld (\<lambda>n. False)))) = Ready
   \<and> masterPushRule (state (refreshFromServer exImports (exWorld (\<lambda>n. False))))
       = Some exMasterRule"
  by (simp add: refreshFromServer_def remoteCall_def refreshRules_def collectDefaultRules_def
        pushDefaultRule_def annotate_def categories_def vectorCategories_def
        KEYWORD_RULE_CATEGORY_def Let_def ex_defs
        RuleId_Master_def RuleId_DM_def RuleId_EncryptedDM_def
        RuleId_Message_def RuleId_EncryptedMessage_def RuleId_ContainsDisplayName_def
        RuleId_ContainsUserName_def RuleId_AtRoomNotification_def RuleId_InviteToSelf_def
        RuleId_IncomingCall_def RuleId_SuppressNotices_def RuleId_Tombstone_def)

section \<open>Rendering while notifications are inhibited\<close>

text \<open>
  C9 (as stated) fails: with the master rule enabled and a room that has unread
  notifications, the output holds, beside the master switch, the floating section
  "Other" with the button that marks everything as read.
\<close>

theorem render_inhibited_only_master_switch_counterexample:
  "map_option enabled (masterPushRule exInhibitedState) = Some True
   \<and> renderCategory exInhibitedState exUnreadServer VectorOther
       = Inr [FloatingSection ''Other'' [AccessibleButton ''clear-notifications'' False]]
   \<and> render exInhibitedState exUnreadServer
       = Inr (Container [LabelledToggleSwitch ''notif-master-switch'' [] False False,
                         FloatingSection ''Other''
                           [AccessibleButton ''clear-notifications'' False]])"
  by (simp add: render_def renderTopSection_def renderCategory_def renderTargets_def
        masterSwitch_def isInhibited_def exInhibitedState_def exUnreadServer_def exState_def
        exServer_def exMasterRule_def mkRule_def Let_def)

text \<open>
  C9 (as amended). While the master rule is enabled, \<^verbatim>\<open>renderTopSection\<close> returns just the
  master switch, no category renders its grid of rule rows (every category other than
  \<^verbatim>\<open>VectorOther\<close> renders nothing), no notification targets are rendered, and
  \<^verbatim>\<open>VectorOther\<close> renders only the floating section with the "Mark all as read" button,
  and that only when some room has unread notifications. Outside the phases Loading and
  Error the whole output is the master switch followed by that section, if any.
\<close>

theorem render_inhibited_master_switch_and_clear_button:
  assumes "masterPushRule st = Some master" and "enabled master"
  shows "renderTopSection st
           = Inr [LabelledToggleSwitch ''notif-master-switch'' [] False (phase st = Persisting)]
       \<and> (\<forall>category. category \<noteq> VectorOther \<longrightarrow> renderCategory st srv category = Inr [])
       \<and> renderCategory st srv VectorOther
           = Inr (if list_ex (\<lambda>n. n > 0) (unreadNotificationCounts srv)
                  then [FloatingSection ''Other''
                          [AccessibleButton ''clear-notifications'' (clearingNotifications st)]]
                  else [])
       \<and> renderTargets st = Inr []
       \<and> (phase st \<noteq> Loading \<and> phase st \<noteq> Error \<longrightarrow>
            render st srv
              = Inr (Container
                  (LabelledToggleSwitch ''notif-master-switch'' [] False (phase st = Persisting)
                   # (if list_ex (\<lambda>n. n > 0) (unreadNotificationCounts srv)
                      then [FloatingSection ''Other''
                              [AccessibleButton ''clear-notifications''
                                 (clearingNotifications st)]]
                      else []))))"
proof -
  have inh: "isInhibited st" using assms by (simp add: isInhibited_def)
  have top: "renderTopSection st
           = Inr [LabelledToggleSwitch ''notif-master-switch'' [] False (phase st = Persisting)]"
    using inh by (simp add: renderTopSection_def masterSwitch_def)
  have cats: "renderCategory st srv category = Inr []" if "category \<noteq> VectorOther" for category
    using inh that by (simp add: renderCategory_def)
  have other: "renderCategory st srv VectorOther
           = Inr (if list_ex (\<lambda>n. n > 0) (unreadNotificationCounts srv)
                  then [FloatingSection ''Other''
                          [AccessibleButton ''clear-notifications'' (clearingNotifications st)]]
                  else [])"
    using inh by (simp add: renderCategory_def Let_def)
  have targets: "renderTargets st = Inr []"
    using inh by (simp add: renderTargets_def)
  have whole: "render st srv
              = Inr (Container
                  (LabelledToggleSwitch ''notif-master-switch'' [] False (phase st = Persisting)
                   # (if list_ex (\<lambda>n. n > 0) (unreadNotificationCounts srv)
                      then [FloatingSection ''Other''
                              [AccessibleButton ''clear-notifications''
                                 (clearingNotifications st)]]
                      else [])))"
    if "phase st \<noteq> Loading" "phase st \<noteq> Error"
    using that by (simp add: render_def top cats other targets)
  from top cats other targets whole show ?thesis by blast
qed

theorem render_inhibited_master_switch_and_clear_button_witness:
  "masterPushRule exInhibitedState = Some (exMasterRule\<lparr>enabled := True\<rparr>)
   \<and> renderTopSection exInhibitedState
       = Inr [LabelledToggleSwitch ''notif-master-switch'' [] False False]
   \<and> renderCategory exInhibitedState (exServer (\<lambda>n. False)) VectorGlobal = Inr []
   \<and> renderCategory exInhibitedState (exServer (\<lambda>n. False)) VectorMentions = Inr []
   \<and> render exInhibitedState (exServer (\<lambda>n. False))
       = Inr (Container [LabelledToggleSwitch ''notif-master-switch'' [] False False])"
proof -
  have m: "masterPushRule exInhibitedState = Some (exMasterRule\<lparr>enabled := True\<rparr>)"
    by (simp add: exInhibitedState_def)
  have e: "enabled (exMasterRule\<lparr>enabled := True\<rparr>)" by simp
  have ph: "phase exInhibitedState = Ready"
    by (simp add: exInhibitedState_def exState_def)
  have unread: "unreadNotificationCounts (exServer (\<lambda>n. False)) = []"
    by (simp add: exServer_def)
  from render_inhibited_master_switch_and_clear_button [OF m e, of "exServer (\<lambda>n. False)"]
       m ph unread
  show ?thesis by simp
qed

section \<open>Adding a keyword while the keywords are Off\<close>

text \<open>
  C10 at a failing input: the aggregate keyword state is Off, there is no keyword rule yet
  and the word "foo" is added. \<^verbatim>\<open>ruleVectorState\<close> has been reassigned to On before the
  loop, so the test that guards the disable call is false: the rule is created with the
  On actions, no disable call follows, and the new rule stays enabled.
\<close>

theorem setKeywords_off_adds_enabled_rule:
  "map_option vectorState (vectorKeywordRuleInfo (state exOffWorld)) = Some Off
   \<and> callLog (client (setKeywords exImports [Some ''foo''] [] exOffWorld))
       = [AddPushRule ContentSpecific ''foo'' [Notify] ''foo'',
          GetPushRules, GetPushers, GetThreePids]
   \<and> SetPushRuleEnabled ContentSpecific ''foo'' False
       \<notin> set (callLog (client (setKeywords exImports [Some ''foo''] [] exOffWorld)))
   \<and> storedRule (global (client (setKeywords exImports [Some ''foo''] [] exOffWorld)))
        ContentSpecific ''foo''
       = Some \<lparr>rule_id = ''foo'', enabled = True, actions = [Notify], pattern = Some ''foo''\<rparr>"
proof -
  have diff: "diffKeywords [] [Some ''foo''] = \<lparr>added = [''foo''], removed = []\<rparr>"
    by (simp add: diffKeywords_def arrayDiff_def dedupeNonEmpty_def arrayFromSet_def
          List.map_filter_simps)
  have run: "keywordMutations exImports (state exOffWorld) [Some ''foo''] [] (client exOffWorld)
        = (Inr (), (client exOffWorld)
             \<lparr>callLog := [AddPushRule ContentSpecific ''foo'' [Notify] ''foo''],
              global := [(Override, [plain exMasterRule]),
                         (ContentSpecific,
                          [\<lparr>rule_id = ''foo'', enabled = True, actions = [Notify],
                            pattern = Some ''foo''\<rparr>])]\<rparr>)"
    by (simp add: keywordMutations_def diff deleteRemoved_def andThen_def addKeyword_def
          newRuleVectorState_def resolved_def remoteCall_def insertRule_def removeRule_def
          exOffWorld_def exServer_def exImports_def exState_def Let_def)
  have log: "callLog (client (setKeywords exImports [Some ''foo''] [] exOffWorld))
       = [AddPushRule ContentSpecific ''foo'' [Notify] ''foo''] @ refreshCalls"
    and stored: "global (client (setKeywords exImports [Some ''foo''] [] exOffWorld))
       = [(Override, [plain exMasterRule]),
          (ContentSpecific,
           [\<lparr>rule_id = ''foo'', enabled = True, actions = [Notify], pattern = Some ''foo''\<rparr>])]"
    by (simp_all add: setKeywords_def run refreshFromServer_client)
  have off: "map_option vectorState (vectorKeywordRuleInfo (state exOffWorld)) = Some Off"
    by (simp add: exOffWorld_def)
  from off log stored show ?thesis
    by (simp add: refreshCalls_def storedRule_def)
qed

end
